theory Spec2Isabelle
  imports Complex_Main
begin

section \<open>The assistant component: data\<close>

text \<open>
  The theory embeds \<^verbatim>\<open>src/components/assistant/assistant-component.tsx\<close>: a React
  function component that holds the map and chat state, polls a run of a remote
  assistant, and executes the map tool calls the run asks for.

  TypeScript types are erased at run time, and the arguments of a tool call come out of
  \<^verbatim>\<open>JSON.parse\<close> with type \<^verbatim>\<open>any\<close>. The values that reach the map state are
  therefore modelled as JavaScript values. A JavaScript number is modelled as a real; the
  component does no arithmetic on these values.
\<close>

datatype jsval =
    JUndefined
  | JNull
  | JBool bool
  | JNum real
  | JStr string
  | JArr "jsval list"
  | JObj "(string \<times> jsval) list"

text \<open>What the component can throw or catch.\<close>

datatype error = SyntaxError | TypeError | NetworkError

text \<open>
  Reading a property, \<^verbatim>\<open>v.k\<close>: a \<^verbatim>\<open>TypeError\<close> on \<^verbatim>\<open>null\<close> and
  \<^verbatim>\<open>undefined\<close>, the own property of an object (an object that \<^verbatim>\<open>JSON.parse\<close>
  built inherits none of the names read here), \<^verbatim>\<open>length\<close> of an array or a string,
  and \<^verbatim>\<open>undefined\<close> otherwise.
\<close>

fun get_prop :: "jsval \<Rightarrow> string \<Rightarrow> error + jsval" where
  "get_prop JUndefined k = Inl TypeError"
| "get_prop JNull k = Inl TypeError"
| "get_prop (JObj kvs) k = Inr (case map_of kvs k of None \<Rightarrow> JUndefined | Some v \<Rightarrow> v)"
| "get_prop (JArr xs) k = Inr (if k = ''length'' then JNum (real (length xs)) else JUndefined)"
| "get_prop (JStr s) k = Inr (if k = ''length'' then JNum (real (length s)) else JUndefined)"
| "get_prop (JBool b) k = Inr JUndefined"
| "get_prop (JNum x) k = Inr JUndefined"

text \<open>
  Converting a value to a string, as a template literal does: a \<^verbatim>\<open>TypeError\<close> for
  an object with an own property \<^verbatim>\<open>toString\<close> (no value out of \<^verbatim>\<open>JSON.parse\<close>
  is callable, and \<^verbatim>\<open>Object.prototype.valueOf\<close> gives no primitive), and for an array
  with such an element, since an array joins the strings of its elements.
\<close>

fun stringifies :: "jsval \<Rightarrow> bool" where
  "stringifies (JObj kvs) = (map_of kvs ''toString'' = None)"
| "stringifies (JArr xs) = list_all stringifies xs"
| "stringifies v = True"

record center =
  lat :: jsval
  lng :: jsval

text \<open>
  \<^verbatim>\<open>Message\<close> is declared in \<^verbatim>\<open>@objects\<close>, outside the source at hand. The
  component reads two of its fields, \<^verbatim>\<open>id\<close> and \<^verbatim>\<open>created_at\<close> (a timestamp,
  taken as an integer); the rest of a message is carried along in \<open>other\<close>.
\<close>

record message =
  msg_id :: string
  created_at :: int
  other :: string

record tool_output =
  tool_call_id :: string
  "output" :: string

text \<open>A run as the component reads it: \<^verbatim>\<open>run.id\<close>, \<^verbatim>\<open>run.status\<close> and
  \<^verbatim>\<open>run.required_action.submit_tool_outputs.tool_calls\<close>, each tool call with its
  \<^verbatim>\<open>id\<close>, \<^verbatim>\<open>type\<close> and \<^verbatim>\<open>function\<close> (\<^verbatim>\<open>name\<close>, \<^verbatim>\<open>arguments\<close>).
  The fields \<^verbatim>\<open>id\<close>, \<^verbatim>\<open>type\<close> and \<^verbatim>\<open>function\<close> carry a prefix here,
  their names being taken. A run and a message have the shape their types declare; only
  the parsed arguments of a tool call are values of any shape.\<close>

record function_call =
  name :: string
  arguments :: string

record tool_call =
  tc_id :: string
  tc_type :: string
  tc_function :: function_call

record submit_tool_outputs_t =
  tool_calls :: "tool_call list"

record required_action_t =
  submit_tool_outputs :: submit_tool_outputs_t

record run =
  run_id :: string
  status :: string
  required_action :: "required_action_t option"

text \<open>The component's state: one field for each \<^verbatim>\<open>useState\<close>.\<close>

record state =
  mapCenter :: center
  pointsOfInterest :: jsval
  mapZoomLevel :: jsval
  userPrompt :: string
  currentRun :: "run option"
  messages :: "message list"
  assistantWriting :: bool
  loading :: bool

definition initial_state :: state where
  "initial_state =
     \<lparr>mapCenter = \<lparr>lat = JNum 37.7749, lng = JNum (- 122.4194)\<rparr>,
      pointsOfInterest = JArr [],
      mapZoomLevel = JNum 12,
      userPrompt = '''',
      currentRun = None,
      messages = [],
      assistantWriting = False,
      loading = True\<rparr>"

text \<open>
  What lies outside the source and is taken as a parameter: \<^verbatim>\<open>JSON.parse\<close>
  (\<open>None\<close> when it throws a \<^verbatim>\<open>SyntaxError\<close>) and \<^verbatim>\<open>generateAnnotation\<close> of
  \<^verbatim>\<open>@objects\<close>.
\<close>

record env =
  JSON_parse :: "string \<Rightarrow> jsval option"
  generateAnnotation :: "string \<Rightarrow> string \<Rightarrow> message"

section \<open>The component and its surroundings\<close>

text \<open>
  Beside the React state, the model keeps what the component leaves in the browser: the
  lines it logged, the timeouts that are pending and the HTTP requests that are in flight.

  A closure of the component reads the state of the render that created it. A pending
  timeout and a pending request therefore carry the state their callback captured.
  \<open>Logger.debug\<close> lines are kept with their fixed text, without the interpolated values.
\<close>

datatype log_entry = LoggerDebug string | LoggerError error | ConsoleError error

datatype request =
    GetMessages bool
  | GetRuns
  | GetRun string state
  | PostMessage string "message list"
  | PostOutputs string "tool_output list"

record timer =
  delay :: nat
  captured :: state

record sys =
  st :: state
  logged :: "log_entry list"
  timers :: "(nat \<times> timer) list"
  requests :: "(nat \<times> request) list"
  next_timer :: nat
  next_request :: nat
  run_changed :: bool

definition Logger_debug :: "string \<Rightarrow> sys \<Rightarrow> sys" where
  "Logger_debug txt s = s\<lparr>logged := logged s @ [LoggerDebug txt]\<rparr>"

definition Logger_error :: "error \<Rightarrow> sys \<Rightarrow> sys" where
  "Logger_error e s = s\<lparr>logged := logged s @ [LoggerError e]\<rparr>"

definition console_error :: "error \<Rightarrow> sys \<Rightarrow> sys" where
  "console_error e s = s\<lparr>logged := logged s @ [ConsoleError e]\<rparr>"

text \<open>The state setters. \<open>setCurrentRun\<close> is always called with an object that a response
  just delivered, so the dependency \<^verbatim>\<open>[currentRun]\<close> of \<^verbatim>\<open>pollRunStatus\<close> changes
  with every call; \<open>run_changed\<close> records it for the next render.\<close>

definition setMapCenter :: "center \<Rightarrow> sys \<Rightarrow> sys" where
  "setMapCenter c s = s\<lparr>st := (st s)\<lparr>mapCenter := c\<rparr>\<rparr>"

definition setPointsOfInterest :: "jsval \<Rightarrow> sys \<Rightarrow> sys" where
  "setPointsOfInterest p s = s\<lparr>st := (st s)\<lparr>pointsOfInterest := p\<rparr>\<rparr>"

definition setMapZoomLevel :: "jsval \<Rightarrow> sys \<Rightarrow> sys" where
  "setMapZoomLevel z s = s\<lparr>st := (st s)\<lparr>mapZoomLevel := z\<rparr>\<rparr>"

definition setUserPrompt :: "string \<Rightarrow> sys \<Rightarrow> sys" where
  "setUserPrompt p s = s\<lparr>st := (st s)\<lparr>userPrompt := p\<rparr>\<rparr>"

definition setCurrentRun :: "run option \<Rightarrow> sys \<Rightarrow> sys" where
  "setCurrentRun r s = s\<lparr>st := (st s)\<lparr>currentRun := r\<rparr>, run_changed := True\<rparr>"

definition setMessages :: "message list \<Rightarrow> sys \<Rightarrow> sys" where
  "setMessages ms s = s\<lparr>st := (st s)\<lparr>messages := ms\<rparr>\<rparr>"

definition setAssistantWriting :: "bool \<Rightarrow> sys \<Rightarrow> sys" where
  "setAssistantWriting b s = s\<lparr>st := (st s)\<lparr>assistantWriting := b\<rparr>\<rparr>"

definition setLoading :: "bool \<Rightarrow> sys \<Rightarrow> sys" where
  "setLoading b s = s\<lparr>st := (st s)\<lparr>loading := b\<rparr>\<rparr>"

text \<open>Sending a request with axios puts it in flight under a fresh number.\<close>

definition axios :: "request \<Rightarrow> sys \<Rightarrow> sys" where
  "axios req s =
     s\<lparr>requests := requests s @ [(next_request s, req)],
       next_request := Suc (next_request s)\<rparr>"

subsection \<open>isRunActive\<close>

definition isRunActive :: "run option \<Rightarrow> bool" where
  "isRunActive r =
     (case r of
        None \<Rightarrow> False
      | Some r' \<Rightarrow> status r' \<in> set [''queued'', ''in_progress'', ''cancelling'', ''requires_action''])"

subsection \<open>The three map handlers\<close>

text \<open>Each handler reads \<^verbatim>\<open>messages\<close> from the render \<open>cap\<close> that created it and
  writes through the setters.\<close>

definition changeMapZoomLevel :: "env \<Rightarrow> state \<Rightarrow> jsval \<Rightarrow> sys \<Rightarrow> string \<times> sys" where
  "changeMapZoomLevel E cap zoomLevel s =
     (let s1 = Logger_debug ''Setting map mapZoomLevel level'' s;
          s2 = setMessages (messages cap @ [generateAnnotation E ''Updated Map'' ''zoom'']) s1;
          s3 = setMapZoomLevel zoomLevel s2
      in (''Map mapZoomLevel level set successfully.'', s3))"

text \<open>\<open>changeMapCenter\<close> puts \<open>latitude\<close> and \<open>longitude\<close> into the text of its log
  line before it sets anything.\<close>

definition changeMapCenter ::
  "env \<Rightarrow> state \<Rightarrow> jsval \<Rightarrow> jsval \<Rightarrow> jsval \<Rightarrow> sys \<Rightarrow> (error + string) \<times> sys" where
  "changeMapCenter E cap latitude longitude zoomLevel s =
     (if stringifies latitude \<and> stringifies longitude then
        (let s1 = Logger_debug ''Setting map center to'' s;
             s2 = setMessages (messages cap @ [generateAnnotation E ''Updated Map'' ''center'']) s1;
             s3 = setMapCenter \<lparr>lat = latitude, lng = longitude\<rparr> s2;
             s4 = setMapZoomLevel zoomLevel s3
         in (Inr ''Map centered set successfully.'', s4))
      else (Inl TypeError, s))"

text \<open>\<open>addLocationsToMap\<close> puts \<^verbatim>\<open>locations.length\<close> into the text of its log line
  before it sets anything; the read throws when \<open>locations\<close> is \<^verbatim>\<open>null\<close> or
  \<^verbatim>\<open>undefined\<close>.\<close>

definition addLocationsToMap ::
  "env \<Rightarrow> state \<Rightarrow> jsval \<Rightarrow> jsval \<Rightarrow> jsval \<Rightarrow> jsval \<Rightarrow> sys \<Rightarrow> (error + string) \<times> sys" where
  "addLocationsToMap E cap locations latitude longitude zoomLevel s =
     (case get_prop locations ''length'' of
        Inl e \<Rightarrow> (Inl e, s)
      | Inr n \<Rightarrow>
          if stringifies n then
            (let s1 = Logger_debug ''Marking locations'' s;
                 s2 = setMessages (messages cap @ [generateAnnotation E ''Annotated Map'' ''mark'']) s1;
                 s3 = setMapCenter \<lparr>lat = latitude, lng = longitude\<rparr> s2;
                 s4 = setMapZoomLevel zoomLevel s3;
                 s5 = setPointsOfInterest locations s4
             in (Inr ''Map locations marked successfully.'', s5))
          else (Inl TypeError, s))"

subsection \<open>executeAssistantActions\<close>

text \<open>The body of the \<^verbatim>\<open>for\<close> loop, for one action. A throw leaves the loop with the
  state as the handlers before it have set it.\<close>

definition execute_action ::
  "env \<Rightarrow> state \<Rightarrow> tool_call \<Rightarrow> tool_output list \<Rightarrow> sys \<Rightarrow> (error + tool_output list) \<times> sys" where
  "execute_action E cap action outputs s =
     (if tc_type action = ''function'' then
        (case JSON_parse E (arguments (tc_function action)) of
           None \<Rightarrow> (Inl SyntaxError, s)
         | Some args \<Rightarrow>
             if name (tc_function action) = ''changeMapZoomLevel'' then
               (case get_prop args ''zoomLevel'' of
                  Inl e \<Rightarrow> (Inl e, s)
                | Inr zoomLevel \<Rightarrow>
                    (case changeMapZoomLevel E cap zoomLevel s of
                       (response, s') \<Rightarrow>
                         (Inr (outputs @ [\<lparr>tool_call_id = tc_id action, output = response\<rparr>]), s')))
             else if name (tc_function action) = ''changeMapCenter'' then
               (case get_prop args ''latitude'' of
                  Inl e \<Rightarrow> (Inl e, s)
                | Inr latitude \<Rightarrow>
                    (case get_prop args ''longitude'' of
                       Inl e \<Rightarrow> (Inl e, s)
                     | Inr longitude \<Rightarrow>
                         (case get_prop args ''zoomLevel'' of
                            Inl e \<Rightarrow> (Inl e, s)
                          | Inr zoomLevel \<Rightarrow>
                              (case changeMapCenter E cap latitude longitude zoomLevel s of
                                 (Inl e, s') \<Rightarrow> (Inl e, s')
                               | (Inr response, s') \<Rightarrow>
                                   (Inr (outputs @ [\<lparr>tool_call_id = tc_id action, output = response\<rparr>]),
                                    s')))))
             else if name (tc_function action) = ''addLocationsToMap'' then
               (case get_prop args ''markers'' of
                  Inl e \<Rightarrow> (Inl e, s)
                | Inr markers \<Rightarrow>
                    (case get_prop args ''centerLatitude'' of
                       Inl e \<Rightarrow> (Inl e, s)
                     | Inr centerLatitude \<Rightarrow>
                         (case get_prop args ''centerLongitude'' of
                            Inl e \<Rightarrow> (Inl e, s)
                          | Inr centerLongitude \<Rightarrow>
                              (case get_prop args ''zoomLevel'' of
                                 Inl e \<Rightarrow> (Inl e, s)
                               | Inr zoomLevel \<Rightarrow>
                                   (case addLocationsToMap E cap markers centerLatitude
                                           centerLongitude zoomLevel s of
                                      (Inl e, s') \<Rightarrow> (Inl e, s')
                                    | (Inr response, s') \<Rightarrow>
                                        (Inr (outputs @
                                              [\<lparr>tool_call_id = tc_id action, output = response\<rparr>]),
                                         s'))))))
             else (Inr outputs, s))
      else (Inr outputs, s))"

fun for_actions ::
  "env \<Rightarrow> state \<Rightarrow> tool_call list \<Rightarrow> tool_output list \<Rightarrow> sys \<Rightarrow> (error + tool_output list) \<times> sys" where
  "for_actions E cap [] outputs s = (Inr outputs, s)"
| "for_actions E cap (action # actions) outputs s =
     (case execute_action E cap action outputs s of
        (Inl e, s') \<Rightarrow> (Inl e, s')
      | (Inr outputs', s') \<Rightarrow> for_actions E cap actions outputs' s')"

definition executeAssistantActions ::
  "env \<Rightarrow> state \<Rightarrow> run \<Rightarrow> sys \<Rightarrow> (error + tool_output list) \<times> sys" where
  "executeAssistantActions E cap r s =
     (case required_action r of
        None \<Rightarrow> (Inr [], s)
      | Some ra \<Rightarrow>
          for_actions E cap (tool_calls (submit_tool_outputs ra)) []
            (Logger_debug ''Executing required actions for the assistant'' s))"

subsection \<open>The poll timer\<close>

text \<open>
  \<open>pollRunStatus\<close> sets a timeout of 2000 ms whose callback calls
  \<open>pollCurrentRunStatus\<close>, and returns the function that clears this timeout (here: the
  number of the timeout to clear). The callback belongs to the render that created it, so
  the timeout carries the state of that render.
\<close>

datatype cleanup = ClearTimeout nat

definition pollRunStatus :: "sys \<Rightarrow> cleanup option \<times> sys" where
  "pollRunStatus s =
     (if currentRun (st s) \<noteq> None \<and> isRunActive (currentRun (st s)) then
        (let timeoutId = next_timer s
         in (Some (ClearTimeout timeoutId),
             s\<lparr>timers := timers s @ [(timeoutId, \<lparr>delay = 2000, captured = st s\<rparr>)],
               next_timer := Suc timeoutId\<rparr>))
      else (None, s))"

definition clearTimeout :: "nat \<Rightarrow> sys \<Rightarrow> sys" where
  "clearTimeout timeoutId s = s\<lparr>timers := filter (\<lambda>(i, t). i \<noteq> timeoutId) (timers s)\<rparr>"

fun run_cleanup :: "cleanup \<Rightarrow> sys \<Rightarrow> sys" where
  "run_cleanup (ClearTimeout timeoutId) s = clearTimeout timeoutId s"

text \<open>
  The effect \<^verbatim>\<open>useEffect(() => { pollRunStatus(); }, [pollRunStatus])\<close>: its arrow
  function has a block body, so the value of \<open>pollRunStatus()\<close> is dropped and the effect
  hands no cleanup to React.
\<close>

definition useEffect_pollRunStatus :: "sys \<Rightarrow> sys" where
  "useEffect_pollRunStatus s = snd (pollRunStatus s)"

text \<open>After an event the component renders again; the effect runs when its dependency
  changed, that is when \<open>setCurrentRun\<close> was called.\<close>

definition render :: "sys \<Rightarrow> sys" where
  "render s =
     (if run_changed s then useEffect_pollRunStatus (s\<lparr>run_changed := False\<rparr>) else s)"

subsection \<open>The API calls\<close>

text \<open>
  Each call is split as the source splits it: the part that sends the request, the
  \<^verbatim>\<open>.then\<close> callback and the \<^verbatim>\<open>.catch\<close> callback.

  \<open>fetchMessages\<close>, \<open>fetchOpenRun\<close> and \<open>hydrateMessages\<close> are memoised with the
  dependency list \<^verbatim>\<open>[]\<close>: they are the closures of the first render for good.
  \<open>pollRunStatus\<close> and \<open>pollCurrentRunStatus\<close> have the dependency \<^verbatim>\<open>[currentRun]\<close>.
\<close>

definition fetchMessages :: "bool \<Rightarrow> sys \<Rightarrow> sys" where
  "fetchMessages hydrating s = axios (GetMessages hydrating) (Logger_debug ''Fetching messages'' s)"

text \<open>\<^verbatim>\<open>Array.prototype.sort\<close> with the comparator
  \<^verbatim>\<open>a.created_at - b.created_at\<close> is a stable sort on \<open>created_at\<close>.\<close>

definition fetchMessages_then :: "state \<Rightarrow> message list option \<Rightarrow> sys \<Rightarrow> sys" where
  "fetchMessages_then cap newMessages s =
     setAssistantWriting False
       (case newMessages of
          None \<Rightarrow> s
        | Some nm \<Rightarrow>
            (let missingMessages =
                   filter (\<lambda>msg. find (\<lambda>m. msg_id m = msg_id msg) (messages cap) = None) nm
             in setMessages (sort_key created_at (messages cap @ missingMessages)) s))"

definition fetchOpenRun :: "sys \<Rightarrow> sys" where
  "fetchOpenRun s = axios GetRuns (Logger_debug ''Fetching open run'' s)"

definition submitFunctionOutputs :: "tool_output list \<Rightarrow> string \<Rightarrow> sys \<Rightarrow> sys" where
  "submitFunctionOutputs outputs runId s =
     axios (PostOutputs runId outputs) (Logger_debug ''Submitting function outputs'' s)"

definition submitFunctionOutputs_then :: "run \<Rightarrow> sys \<Rightarrow> sys" where
  "submitFunctionOutputs_then r s = setCurrentRun (Some r) s"

definition fetchOpenRun_then :: "env \<Rightarrow> state \<Rightarrow> run option \<Rightarrow> sys \<Rightarrow> (error + unit) \<times> sys" where
  "fetchOpenRun_then E cap latestRun s =
     (case latestRun of
        None \<Rightarrow> (Inr (), s)
      | Some r \<Rightarrow>
          if isRunActive (Some r) then
            (let s1 = setCurrentRun (Some r) s
             in if status r = ''requires_action'' then
                  (case executeAssistantActions E cap r s1 of
                     (Inl e, s2) \<Rightarrow> (Inl e, s2)
                   | (Inr outputs, s2) \<Rightarrow> (Inr (), submitFunctionOutputs outputs (run_id r) s2))
                else (Inr (), s1))
          else (Inr (), s))"

definition pollCurrentRunStatus :: "state \<Rightarrow> sys \<Rightarrow> sys" where
  "pollCurrentRunStatus cap s =
     (case currentRun cap of
        None \<Rightarrow> s
      | Some r \<Rightarrow> axios (GetRun (run_id r) cap) (Logger_debug ''Fetching current run status'' s))"

definition pollCurrentRunStatus_then :: "env \<Rightarrow> state \<Rightarrow> run \<Rightarrow> sys \<Rightarrow> (error + unit) \<times> sys" where
  "pollCurrentRunStatus_then E cap r s =
     (let s1 = setCurrentRun (Some r) s
      in if \<not> isRunActive (Some r) then (Inr (), fetchMessages False s1)
         else if status r = ''requires_action'' then
           (case executeAssistantActions E cap r s1 of
              (Inl e, s2) \<Rightarrow> (Inl e, s2)
            | (Inr outputs, s2) \<Rightarrow> (Inr (), submitFunctionOutputs outputs (run_id r) s2))
         else (Inr (), s1))"

definition handlePromptSubmission :: "sys \<Rightarrow> sys" where
  "handlePromptSubmission s =
     (let s1 = Logger_debug ''Handling prompt submission'' s;
          messageContent = userPrompt (st s);
          s2 = setUserPrompt '''' s1
      in axios (PostMessage messageContent (messages (st s))) s2)"

definition handlePromptSubmission_then :: "message list \<Rightarrow> message \<Rightarrow> run \<Rightarrow> sys \<Rightarrow> sys" where
  "handlePromptSubmission_then msgs msg r s =
     setAssistantWriting True (setCurrentRun (Some r) (setMessages (msgs @ [msg]) s))"

definition hydrateMessages :: "sys \<Rightarrow> sys" where
  "hydrateMessages s = fetchMessages True (Logger_debug ''Hydrating'' s)"

subsection \<open>Events\<close>

text \<open>
  The browser runs one callback at a time. An event is a timeout that fires, a response
  (or a network failure) that arrives for a request in flight, or the user typing in the
  input or pressing Enter in it. A response carries what the endpoint of its request
  answers.

  The setters that one callback calls take effect together: the render that follows the
  callback sees all of them, and the closures it creates capture that state.
\<close>

datatype response =
    NetworkFailure
  | MessagesResponse "message list option"
  | RunsResponse "run option"
  | RunResponse run
  | PostMessageResponse message run
  | PostOutputsResponse run

datatype event =
    TimerFires nat
  | Response nat response
  | ChangeInput string
  | PressEnter

text \<open>
  What happens when a request settles. A request of \<open>hydrateMessages\<close> goes on with the
  rest of its chain, \<^verbatim>\<open>.then(() => fetchOpenRun()).then(() => setLoading(false))\<close>,
  whether it failed or not, because \<open>fetchMessages\<close> and \<open>fetchOpenRun\<close> catch their own
  errors. An error thrown inside a \<^verbatim>\<open>.then\<close> callback reaches the \<^verbatim>\<open>.catch\<close> of
  the same chain.
\<close>

fun settle :: "env \<Rightarrow> request \<Rightarrow> response \<Rightarrow> sys \<Rightarrow> sys option" where
  "settle E (GetMessages hydrating) NetworkFailure s =
     (let s1 = Logger_error NetworkError s
      in Some (if hydrating then fetchOpenRun s1 else s1))"
| "settle E (GetMessages hydrating) (MessagesResponse newMessages) s =
     (let s1 = fetchMessages_then initial_state newMessages s
      in Some (if hydrating then fetchOpenRun s1 else s1))"
| "settle E GetRuns NetworkFailure s =
     Some (setLoading False (Logger_error NetworkError s))"
| "settle E GetRuns (RunsResponse latestRun) s =
     (case fetchOpenRun_then E initial_state latestRun s of
        (Inl e, s1) \<Rightarrow> Some (setLoading False (Logger_error e s1))
      | (Inr u, s1) \<Rightarrow> Some (setLoading False s1))"
| "settle E (GetRun runId cap) NetworkFailure s =
     Some (console_error NetworkError s)"
| "settle E (GetRun runId cap) (RunResponse r) s =
     (case pollCurrentRunStatus_then E cap r s of
        (Inl e, s1) \<Rightarrow> Some (console_error e s1)
      | (Inr u, s1) \<Rightarrow> Some s1)"
| "settle E (PostMessage messageContent msgs) NetworkFailure s =
     Some (Logger_error NetworkError s)"
| "settle E (PostMessage messageContent msgs) (PostMessageResponse msg r) s =
     Some (handlePromptSubmission_then msgs msg r s)"
| "settle E (PostOutputs runId outputs) NetworkFailure s =
     Some (Logger_error NetworkError s)"
| "settle E (PostOutputs runId outputs) (PostOutputsResponse r) s =
     Some (submitFunctionOutputs_then r s)"
| "settle E req resp s = None"

text \<open>
  An event that cannot happen in a state gives \<open>None\<close>: a timeout or a request that is
  not pending, a response of another endpoint, or input while the skeleton is shown
  (\<open>loading\<close>) or the input is disabled (\<open>assistantWriting\<close>).
\<close>

definition dispatch :: "env \<Rightarrow> event \<Rightarrow> sys \<Rightarrow> sys option" where
  "dispatch E e s =
     (case e of
        TimerFires timeoutId \<Rightarrow>
          (case map_of (timers s) timeoutId of
             None \<Rightarrow> None
           | Some t \<Rightarrow>
               Some (pollCurrentRunStatus (captured t)
                       (s\<lparr>timers := filter (\<lambda>(i, t). i \<noteq> timeoutId) (timers s)\<rparr>)))
      | Response requestId resp \<Rightarrow>
          (case map_of (requests s) requestId of
             None \<Rightarrow> None
           | Some req \<Rightarrow>
               settle E req resp
                 (s\<lparr>requests := filter (\<lambda>(i, q). i \<noteq> requestId) (requests s)\<rparr>))
      | ChangeInput v \<Rightarrow>
          (if loading (st s) \<or> assistantWriting (st s) then None else Some (setUserPrompt v s))
      | PressEnter \<Rightarrow>
          (if loading (st s) \<or> assistantWriting (st s) then None
           else Some (handlePromptSubmission s)))"

definition step :: "env \<Rightarrow> event \<Rightarrow> sys \<Rightarrow> sys option" where
  "step E e s = map_option render (dispatch E e s)"

fun run_events :: "env \<Rightarrow> event list \<Rightarrow> sys \<Rightarrow> sys option" where
  "run_events E [] s = Some s"
| "run_events E (e # es) s =
     (case step E e s of None \<Rightarrow> None | Some s' \<Rightarrow> run_events E es s')"

text \<open>The component after its first render, when the effects have run: the poll effect
  finds no run, and \<open>hydrateMessages\<close> sends the first request.\<close>

definition mount :: sys where
  "mount =
     hydrateMessages
       (useEffect_pollRunStatus
          \<lparr>st = initial_state, logged = [], timers = [], requests = [],
           next_timer = 0, next_request = 0, run_changed = False\<rparr>)"

section \<open>Vocabulary of the properties\<close>

text \<open>The tool calls that \<open>executeAssistantActions\<close> has a branch for.\<close>

definition handled_names :: "string list" where
  "handled_names = [''changeMapZoomLevel'', ''changeMapCenter'', ''addLocationsToMap'']"

definition handled :: "tool_call \<Rightarrow> bool" where
  "handled action =
     (tc_type action = ''function'' \<and> name (tc_function action) \<in> set handled_names)"

text \<open>
  The tool calls that the loop body gets through without a throw: a call that is not a
  function, or a function call whose arguments \<^verbatim>\<open>JSON.parse\<close> accepts and, when its
  name is handled, whose parsed arguments the handler can read: they are neither
  \<^verbatim>\<open>null\<close> nor \<^verbatim>\<open>undefined\<close>; for \<open>changeMapCenter\<close>, \<open>latitude\<close> and
  \<open>longitude\<close> convert to strings; for \<open>addLocationsToMap\<close>, \<open>markers\<close> is neither
  \<^verbatim>\<open>null\<close> nor \<^verbatim>\<open>undefined\<close> and its \<open>length\<close> converts to a string.
\<close>

definition well_formed_call :: "env \<Rightarrow> tool_call \<Rightarrow> bool" where
  "well_formed_call E action =
     (if tc_type action = ''function'' then
        (case JSON_parse E (arguments (tc_function action)) of
           None \<Rightarrow> False
         | Some args \<Rightarrow>
             if name (tc_function action) = ''changeMapZoomLevel''
             then args \<noteq> JNull \<and> args \<noteq> JUndefined
             else if name (tc_function action) = ''changeMapCenter''
             then (case get_prop args ''latitude'' of
                     Inl e \<Rightarrow> False
                   | Inr latitude \<Rightarrow> stringifies latitude)
                  \<and> (case get_prop args ''longitude'' of
                         Inl e \<Rightarrow> False
                       | Inr longitude \<Rightarrow> stringifies longitude)
             else if name (tc_function action) = ''addLocationsToMap''
             then (case get_prop args ''markers'' of
                     Inl e \<Rightarrow> False
                   | Inr markers \<Rightarrow>
                       (case get_prop markers ''length'' of
                          Inl e \<Rightarrow> False
                        | Inr n \<Rightarrow> stringifies n))
             else True)
      else True)"

text \<open>
  The locations that \<open>addLocationsToMap\<close> gets through its log line with: their
  \<open>length\<close> can be read (they are neither \<^verbatim>\<open>null\<close> nor \<^verbatim>\<open>undefined\<close>) and
  converts to a string. Every array is of this kind.
\<close>

definition readable_locations :: "jsval \<Rightarrow> bool" where
  "readable_locations locations =
     (case get_prop locations ''length'' of
        Inl e \<Rightarrow> False
      | Inr n \<Rightarrow> stringifies n)"

text \<open>The tool calls of a run, none when it has no \<open>required_action\<close>.\<close>

definition run_tool_calls :: "run \<Rightarrow> tool_call list" where
  "run_tool_calls r =
     (case required_action r of
        None \<Rightarrow> []
      | Some ra \<Rightarrow> tool_calls (submit_tool_outputs ra))"

text \<open>What the map handlers never touch: the timeouts, the requests, the run, the prompt
  and the two flags.\<close>

definition same_surroundings :: "sys \<Rightarrow> sys \<Rightarrow> bool" where
  "same_surroundings s s' =
     (requests s' = requests s \<and> timers s' = timers s
      \<and> next_request s' = next_request s \<and> next_timer s' = next_timer s
      \<and> run_changed s' = run_changed s
      \<and> currentRun (st s') = currentRun (st s)
      \<and> userPrompt (st s') = userPrompt (st s)
      \<and> assistantWriting (st s') = assistantWriting (st s)
      \<and> loading (st s') = loading (st s))"

text \<open>The success string each handler returns.\<close>

definition success_response :: "string \<Rightarrow> string" where
  "success_response n =
     (if n = ''changeMapZoomLevel'' then ''Map mapZoomLevel level set successfully.''
      else if n = ''changeMapCenter'' then ''Map centered set successfully.''
      else ''Map locations marked successfully.'')"

text \<open>The map state: center, zoom level and points of interest.\<close>

definition map_state :: "sys \<Rightarrow> center \<times> jsval \<times> jsval" where
  "map_state s = (mapCenter (st s), mapZoomLevel (st s), pointsOfInterest (st s))"

text \<open>The outputs that a run asks for: one for each handled call, in order.\<close>

definition expected_outputs :: "run \<Rightarrow> tool_output list" where
  "expected_outputs r =
     map (\<lambda>a. \<lparr>tool_call_id = tc_id a, output = success_response (name (tc_function a))\<rparr>)
       (filter handled (run_tool_calls r))"

text \<open>The tool-output submissions and the run-status polls among the requests in flight.\<close>

fun is_PostOutputs :: "request \<Rightarrow> bool" where
  "is_PostOutputs (PostOutputs runId outputs) = True"
| "is_PostOutputs req = False"

fun is_poll :: "request \<Rightarrow> bool" where
  "is_poll (GetRun runId cap) = True"
| "is_poll req = False"

definition submissions :: "sys \<Rightarrow> request list" where
  "submissions s = filter is_PostOutputs (map snd (requests s))"

definition polls_in_flight :: "sys \<Rightarrow> nat" where
  "polls_in_flight s = length (filter is_poll (map snd (requests s)))"

text \<open>The polls that are outstanding: a timeout that will send one, or one in flight.\<close>

definition outstanding :: "sys \<Rightarrow> nat" where
  "outstanding s = length (timers s) + polls_in_flight s"

text \<open>The run that a response delivers, and the events that deliver an active run.\<close>

fun run_of :: "response \<Rightarrow> run option" where
  "run_of (RunsResponse latestRun) = latestRun"
| "run_of (RunResponse r) = Some r"
| "run_of (PostMessageResponse msg r) = Some r"
| "run_of (PostOutputsResponse r) = Some r"
| "run_of resp = None"

fun delivers_active_run :: "event \<Rightarrow> bool" where
  "delivers_active_run (Response requestId resp) = isRunActive (run_of resp)"
| "delivers_active_run e = False"

fun is_poll_response :: "event \<Rightarrow> bool" where
  "is_poll_response (Response requestId (RunResponse r)) = True"
| "is_poll_response e = False"

text \<open>The log line that the \<^verbatim>\<open>.catch\<close> of a request writes on a network failure.\<close>

fun failure_line :: "request \<Rightarrow> log_entry" where
  "failure_line (GetRun runId cap) = ConsoleError NetworkError"
| "failure_line req = LoggerError NetworkError"

text \<open>The timeouts that were pending before an event and still are after it.\<close>

definition remaining_timers :: "event \<Rightarrow> sys \<Rightarrow> (nat \<times> timer) list" where
  "remaining_timers e s =
     (case e of
        TimerFires timeoutId \<Rightarrow> filter (\<lambda>(i, t). i \<noteq> timeoutId) (timers s)
      | _ \<Rightarrow> timers s)"

subsection \<open>Sample inputs\<close>

text \<open>
  An environment for concrete runs. Its \<open>JSON_parse\<close> agrees with \<^verbatim>\<open>JSON.parse\<close> on
  the strings that the runs below use: the five listed texts parse to the listed values,
  and the empty string is not JSON.
\<close>

definition sample_env :: env where
  \<open>sample_env =
     \<lparr>JSON_parse =
        map_of
          [(''{"zoomLevel":5}'', JObj [(''zoomLevel'', JNum 5)]),
           (''{"latitude":48,"longitude":2,"zoomLevel":10}'',
            JObj [(''latitude'', JNum 48), (''longitude'', JNum 2), (''zoomLevel'', JNum 10)]),
           (''{"markers":[],"centerLatitude":48,"centerLongitude":2,"zoomLevel":10}'',
            JObj [(''markers'', JArr []), (''centerLatitude'', JNum 48),
                  (''centerLongitude'', JNum 2), (''zoomLevel'', JNum 10)]),
           (''{}'', JObj []),
           (''null'', JNull)],
      generateAnnotation = (\<lambda>title kind. \<lparr>msg_id = kind, created_at = 0, other = title\<rparr>)\<rparr>\<close>

definition sample_call :: "string \<Rightarrow> string \<Rightarrow> string \<Rightarrow> tool_call" where
  "sample_call i n a =
     \<lparr>tc_id = i, tc_type = ''function'', tc_function = \<lparr>name = n, arguments = a\<rparr>\<rparr>"

text \<open>An unrecognised function, the three handled functions and a call of another type.\<close>

definition sample_calls :: "tool_call list" where
  \<open>sample_calls =
     [sample_call ''call_1'' ''lookupWeather'' ''{}'',
      sample_call ''call_2'' ''changeMapZoomLevel'' ''{"zoomLevel":5}'',
      sample_call ''call_3'' ''changeMapCenter''
        ''{"latitude":48,"longitude":2,"zoomLevel":10}'',
      sample_call ''call_4'' ''addLocationsToMap''
        ''{"markers":[],"centerLatitude":48,"centerLongitude":2,"zoomLevel":10}'',
      \<lparr>tc_id = ''call_5'', tc_type = ''code_interpreter'',
       tc_function = \<lparr>name = ''changeMapCenter'', arguments = ''''\<rparr>\<rparr>]\<close>

definition sample_run :: "string \<Rightarrow> tool_call list option \<Rightarrow> run" where
  "sample_run stat calls =
     \<lparr>run_id = ''run_1'', status = stat,
      required_action = map_option (\<lambda>cs. \<lparr>submit_tool_outputs = \<lparr>tool_calls = cs\<rparr>\<rparr>) calls\<rparr>"

text \<open>A run that asks for one zoom change.\<close>

definition zoom_run :: run where
  \<open>zoom_run =
     sample_run ''requires_action''
       (Some [sample_call ''call_1'' ''changeMapZoomLevel'' ''{"zoomLevel":5}''])\<close>

definition sample_message :: "string \<Rightarrow> int \<Rightarrow> message" where
  "sample_message i t = \<lparr>msg_id = i, created_at = t, other = ''''\<rparr>"

text \<open>A state of the sample run in which one poll is in flight.\<close>

definition polling_state :: sys where
  "polling_state =
     the (run_events sample_env
            [Response 0 (MessagesResponse (Some [])),
             Response 1 (RunsResponse (Some (sample_run ''queued'' None))),
             TimerFires 0]
            mount)"

section \<open>Properties\<close>

lemmas setter_defs =
  setMapCenter_def setPointsOfInterest_def setMapZoomLevel_def setUserPrompt_def
  setCurrentRun_def setMessages_def setAssistantWriting_def setLoading_def
  Logger_debug_def Logger_error_def console_error_def axios_def

lemmas handler_defs = changeMapZoomLevel_def changeMapCenter_def addLocationsToMap_def

lemmas sample_defs = sample_env_def sample_call_def sample_run_def sample_message_def
  zoom_run_def

lemmas mount_defs = mount_def hydrateMessages_def fetchMessages_def useEffect_pollRunStatus_def
  pollRunStatus_def initial_state_def isRunActive_def

lemmas event_defs = step_def dispatch_def render_def useEffect_pollRunStatus_def
  pollRunStatus_def pollCurrentRunStatus_def pollCurrentRunStatus_then_def
  fetchOpenRun_def fetchOpenRun_then_def fetchMessages_def fetchMessages_then_def
  submitFunctionOutputs_def submitFunctionOutputs_then_def handlePromptSubmission_def
  handlePromptSubmission_then_def hydrateMessages_def executeAssistantActions_def
  execute_action_def changeMapZoomLevel_def isRunActive_def initial_state_def

subsection \<open>The map handlers\<close>

lemma stringifies_number: "stringifies (JNum x)"
  by simp

lemma readable_locations_array: "readable_locations (JArr xs)"
  by (simp add: readable_locations_def)

lemma changeMapCenter_sets:
  assumes "stringifies la" "stringifies lo"
  shows "changeMapCenter E cap la lo z s =
           (Inr ''Map centered set successfully.'',
            setMapZoomLevel z
              (setMapCenter \<lparr>lat = la, lng = lo\<rparr>
                 (setMessages (messages cap @ [generateAnnotation E ''Updated Map'' ''center''])
                    (Logger_debug ''Setting map center to'' s))))"
  using assms by (simp add: changeMapCenter_def Let_def)

lemma changeMapCenter_throws_unchanged:
  assumes "\<not> (stringifies la \<and> stringifies lo)"
  shows "changeMapCenter E cap la lo z s = (Inl TypeError, s)"
  using assms by (auto simp: changeMapCenter_def)

lemma addLocationsToMap_sets:
  assumes "readable_locations locations"
  shows "addLocationsToMap E cap locations la lo z s =
           (Inr ''Map locations marked successfully.'',
            setPointsOfInterest locations
              (setMapZoomLevel z
                 (setMapCenter \<lparr>lat = la, lng = lo\<rparr>
                    (setMessages
                       (messages cap @ [generateAnnotation E ''Annotated Map'' ''mark''])
                       (Logger_debug ''Marking locations'' s)))))"
  using assms
  by (auto simp: addLocationsToMap_def readable_locations_def Let_def split: sum.splits)

lemma get_prop_error: "get_prop v k = Inl e \<Longrightarrow> e = TypeError"
  by (cases v) (auto split: if_splits)

lemma addLocationsToMap_throws_unchanged:
  assumes "\<not> readable_locations locations"
  shows "addLocationsToMap E cap locations la lo z s = (Inl TypeError, s)"
  using assms
  by (auto simp: addLocationsToMap_def readable_locations_def split: sum.splits
      dest: get_prop_error)

text \<open>
  C3 (as amended). \<open>changeMapZoomLevel\<close> sets the zoom level to its argument and returns
  its success string. \<open>changeMapCenter\<close>, when latitude and longitude convert to strings
  (as every number does), sets the center to them and the zoom level to its third
  argument and returns its success string; otherwise it throws a \<^verbatim>\<open>TypeError\<close> and
  sets nothing. \<open>addLocationsToMap\<close>, when the \<open>length\<close> of its locations can be read and
  converts to a string (as for every array), sets the points of interest to the
  locations, the center and the zoom level, and returns its success string; otherwise it
  throws a \<^verbatim>\<open>TypeError\<close> and sets nothing.
\<close>

theorem handlers_set_named_map_state:
  "mapZoomLevel (st (snd (changeMapZoomLevel E cap z s))) = z
   \<and> fst (changeMapZoomLevel E cap z s) = ''Map mapZoomLevel level set successfully.''
   \<and> (stringifies la \<and> stringifies lo \<longrightarrow>
        mapCenter (st (snd (changeMapCenter E cap la lo z s))) = \<lparr>lat = la, lng = lo\<rparr>
      \<and> mapZoomLevel (st (snd (changeMapCenter E cap la lo z s))) = z
      \<and> fst (changeMapCenter E cap la lo z s) = Inr ''Map centered set successfully.'')
   \<and> (\<not> (stringifies la \<and> stringifies lo) \<longrightarrow>
        changeMapCenter E cap la lo z s = (Inl TypeError, s))
   \<and> (readable_locations locations \<longrightarrow>
        pointsOfInterest (st (snd (addLocationsToMap E cap locations la' lo' z s))) = locations
      \<and> mapCenter (st (snd (addLocationsToMap E cap locations la' lo' z s)))
          = \<lparr>lat = la', lng = lo'\<rparr>
      \<and> mapZoomLevel (st (snd (addLocationsToMap E cap locations la' lo' z s))) = z
      \<and> fst (addLocationsToMap E cap locations la' lo' z s)
          = Inr ''Map locations marked successfully.'')
   \<and> (\<not> readable_locations locations \<longrightarrow>
        addLocationsToMap E cap locations la' lo' z s = (Inl TypeError, s))
   \<and> stringifies (JNum x)
   \<and> readable_locations (JArr xs)"
proof (intro conjI impI)
  show "mapZoomLevel (st (snd (changeMapZoomLevel E cap z s))) = z"
    and "fst (changeMapZoomLevel E cap z s) = ''Map mapZoomLevel level set successfully.''"
    by (simp_all add: changeMapZoomLevel_def setter_defs)
  show "stringifies (JNum x)" by (rule stringifies_number)
  show "readable_locations (JArr xs)" by (rule readable_locations_array)
next
  assume "stringifies la \<and> stringifies lo"
  then have a: "stringifies la" "stringifies lo" by simp_all
  show "mapCenter (st (snd (changeMapCenter E cap la lo z s))) = \<lparr>lat = la, lng = lo\<rparr>"
    and "mapZoomLevel (st (snd (changeMapCenter E cap la lo z s))) = z"
    and "fst (changeMapCenter E cap la lo z s) = Inr ''Map centered set successfully.''"
    by (simp_all add: changeMapCenter_sets [OF a] setter_defs)
next
  assume "\<not> (stringifies la \<and> stringifies lo)"
  then show "changeMapCenter E cap la lo z s = (Inl TypeError, s)"
    by (rule changeMapCenter_throws_unchanged)
next
  assume a: "readable_locations locations"
  show "pointsOfInterest (st (snd (addLocationsToMap E cap locations la' lo' z s))) = locations"
    and "mapCenter (st (snd (addLocationsToMap E cap locations la' lo' z s)))
          = \<lparr>lat = la', lng = lo'\<rparr>"
    and "mapZoomLevel (st (snd (addLocationsToMap E cap locations la' lo' z s))) = z"
    and "fst (addLocationsToMap E cap locations la' lo' z s)
          = Inr ''Map locations marked successfully.''"
    by (simp_all add: addLocationsToMap_sets [OF a] setter_defs)
next
  assume "\<not> readable_locations locations"
  then show "addLocationsToMap E cap locations la' lo' z s = (Inl TypeError, s)"
    by (rule addLocationsToMap_throws_unchanged)
qed

text \<open>A center of two numbers and an array of one location.\<close>

theorem handlers_set_named_map_state_witness:
  "stringifies (JNum 48) \<and> stringifies (JNum 2)
   \<and> mapCenter (st (snd (changeMapCenter sample_env initial_state (JNum 48) (JNum 2)
                            (JNum 10) mount)))
       = \<lparr>lat = JNum 48, lng = JNum 2\<rparr>
   \<and> fst (changeMapCenter sample_env initial_state (JNum 48) (JNum 2) (JNum 10) mount)
       = Inr ''Map centered set successfully.''
   \<and> readable_locations (JArr [JStr ''Louvre''])
   \<and> pointsOfInterest (st (snd (addLocationsToMap sample_env initial_state
                                   (JArr [JStr ''Louvre'']) (JNum 48) (JNum 2) (JNum 10) mount)))
       = JArr [JStr ''Louvre'']
   \<and> fst (addLocationsToMap sample_env initial_state
             (JArr [JStr ''Louvre'']) (JNum 48) (JNum 2) (JNum 10) mount)
       = Inr ''Map locations marked successfully.''"
proof -
  have a: "stringifies (JNum 48) \<and> stringifies (JNum 2)" by simp
  have b: "readable_locations (JArr [JStr ''Louvre''])"
    by (simp add: readable_locations_def)
  note inst =
    handlers_set_named_map_state
      [of sample_env initial_state "JNum 10" mount "JNum 48" "JNum 2"
          "JArr [JStr ''Louvre'']" "JNum 48" "JNum 2" 0 "[]"]
  note center = inst [THEN conjunct2, THEN conjunct2, THEN conjunct1, rule_format, OF a]
  note locs = inst [THEN conjunct2, THEN conjunct2, THEN conjunct2, THEN conjunct2,
      THEN conjunct1, rule_format, OF b]
  from a b center locs show ?thesis by blast
qed

text \<open>
  C3 as stated fails: the arguments \<^verbatim>\<open>{}\<close> of a tool call have no \<open>markers\<close>, so
  \<open>addLocationsToMap\<close> is called with \<^verbatim>\<open>undefined\<close> locations; reading
  \<^verbatim>\<open>locations.length\<close> throws, and points of interest, center and zoom level stay as
  they were (no markers, the initial center, 12). Likewise \<open>changeMapCenter\<close> throws on a
  latitude that is an object with an own \<^verbatim>\<open>toString\<close>, and the center stays.
\<close>

theorem addLocationsToMap_undefined_locations:
  "fst (addLocationsToMap sample_env initial_state JUndefined (JNum 48) (JNum 2) (JNum 10) mount)
     = Inl TypeError
   \<and> pointsOfInterest (st (snd (addLocationsToMap sample_env initial_state JUndefined
                                   (JNum 48) (JNum 2) (JNum 10) mount)))
       = JArr []
   \<and> mapCenter (st (snd (addLocationsToMap sample_env initial_state JUndefined
                            (JNum 48) (JNum 2) (JNum 10) mount)))
       = \<lparr>lat = JNum 37.7749, lng = JNum (- 122.4194)\<rparr>
   \<and> mapZoomLevel (st (snd (addLocationsToMap sample_env initial_state JUndefined
                               (JNum 48) (JNum 2) (JNum 10) mount)))
       = JNum 12
   \<and> fst (changeMapCenter sample_env initial_state (JObj [(''toString'', JNum 1)]) (JNum 2)
            (JNum 10) mount)
       = Inl TypeError
   \<and> mapCenter (st (snd (changeMapCenter sample_env initial_state
                            (JObj [(''toString'', JNum 1)]) (JNum 2) (JNum 10) mount)))
       = \<lparr>lat = JNum 37.7749, lng = JNum (- 122.4194)\<rparr>"
  by (simp add: addLocationsToMap_def changeMapCenter_def mount_defs setter_defs)

text \<open>
  C9 (as amended). Each handler leaves the map state it does not name as it was:
  \<open>changeMapZoomLevel\<close> keeps the center and the points of interest, \<open>changeMapCenter\<close>
  keeps the points of interest. \<open>addLocationsToMap\<close>, when the \<open>length\<close> of its locations
  can be read and converts to a string (as for every array), replaces the points of
  interest by the locations, whatever they were before; otherwise it throws and the
  points of interest stay as they were.
\<close>

theorem handlers_keep_unnamed_map_state:
  "mapCenter (st (snd (changeMapZoomLevel E cap z s))) = mapCenter (st s)
   \<and> pointsOfInterest (st (snd (changeMapZoomLevel E cap z s))) = pointsOfInterest (st s)
   \<and> pointsOfInterest (st (snd (changeMapCenter E cap la lo z s))) = pointsOfInterest (st s)
   \<and> (readable_locations locations \<longrightarrow>
        pointsOfInterest (st (snd (addLocationsToMap E cap locations la lo z s))) = locations)
   \<and> (\<not> readable_locations locations \<longrightarrow>
        pointsOfInterest (st (snd (addLocationsToMap E cap locations la lo z s)))
          = pointsOfInterest (st s))
   \<and> readable_locations (JArr xs)"
proof (intro conjI impI)
  show "mapCenter (st (snd (changeMapZoomLevel E cap z s))) = mapCenter (st s)"
    and "pointsOfInterest (st (snd (changeMapZoomLevel E cap z s))) = pointsOfInterest (st s)"
    and "pointsOfInterest (st (snd (changeMapCenter E cap la lo z s))) = pointsOfInterest (st s)"
    by (simp_all add: changeMapZoomLevel_def changeMapCenter_def setter_defs)
  show "readable_locations (JArr xs)" by (rule readable_locations_array)
next
  assume a: "readable_locations locations"
  show "pointsOfInterest (st (snd (addLocationsToMap E cap locations la lo z s))) = locations"
    by (simp add: addLocationsToMap_sets [OF a] setter_defs)
next
  assume a: "\<not> readable_locations locations"
  show "pointsOfInterest (st (snd (addLocationsToMap E cap locations la lo z s)))
          = pointsOfInterest (st s)"
    by (simp add: addLocationsToMap_throws_unchanged [OF a])
qed

text \<open>A map that shows one marker: a new array of locations replaces it, and
  \<^verbatim>\<open>null\<close> leaves it.\<close>

theorem handlers_keep_unnamed_map_state_witness:
  "readable_locations (JArr [JStr ''Louvre''])
   \<and> pointsOfInterest (st (setPointsOfInterest (JArr [JStr ''Orsay'']) mount))
       = JArr [JStr ''Orsay'']
   \<and> pointsOfInterest (st (snd (addLocationsToMap sample_env initial_state
        (JArr [JStr ''Louvre'']) (JNum 48) (JNum 2) (JNum 10)
        (setPointsOfInterest (JArr [JStr ''Orsay'']) mount))))
       = JArr [JStr ''Louvre'']
   \<and> \<not> readable_locations JNull
   \<and> pointsOfInterest (st (snd (addLocationsToMap sample_env initial_state
        JNull (JNum 48) (JNum 2) (JNum 10)
        (setPointsOfInterest (JArr [JStr ''Orsay'']) mount))))
       = JArr [JStr ''Orsay'']"
proof -
  let ?s = "setPointsOfInterest (JArr [JStr ''Orsay'']) mount"
  have a: "readable_locations (JArr [JStr ''Louvre''])"
    by (simp add: readable_locations_def)
  have b: "\<not> readable_locations JNull" by (simp add: readable_locations_def)
  have c: "pointsOfInterest (st ?s) = JArr [JStr ''Orsay'']"
    by (simp add: setPointsOfInterest_def)
  note t1 =
    handlers_keep_unnamed_map_state
      [of sample_env initial_state "JNum 10" ?s "JNum 48" "JNum 2" "JArr [JStr ''Louvre'']" "[]",
       THEN conjunct2, THEN conjunct2, THEN conjunct2, THEN conjunct1, rule_format, OF a]
  note t2 =
    handlers_keep_unnamed_map_state
      [of sample_env initial_state "JNum 10" ?s "JNum 48" "JNum 2" JNull "[]",
       THEN conjunct2, THEN conjunct2, THEN conjunct2, THEN conjunct2, THEN conjunct1,
       rule_format, OF b]
  from a b c t1 t2 show ?thesis by simp
qed

text \<open>
  C9 as stated fails: called with \<^verbatim>\<open>null\<close> for its locations, \<open>addLocationsToMap\<close>
  throws at \<^verbatim>\<open>locations.length\<close>; the points of interest are not replaced by its
  argument, the marker that was there stays.
\<close>

theorem addLocationsToMap_null_keeps_markers:
  "fst (addLocationsToMap sample_env initial_state JNull (JNum 48) (JNum 2) (JNum 10)
          (setPointsOfInterest (JArr [JStr ''Orsay'']) mount))
     = Inl TypeError
   \<and> pointsOfInterest (st (snd (addLocationsToMap sample_env initial_state JNull
        (JNum 48) (JNum 2) (JNum 10) (setPointsOfInterest (JArr [JStr ''Orsay'']) mount))))
       = JArr [JStr ''Orsay'']"
  by (simp add: addLocationsToMap_def setPointsOfInterest_def)

subsection \<open>The loop body of executeAssistantActions\<close>

lemma get_prop_defined:
  "args \<noteq> JNull \<Longrightarrow> args \<noteq> JUndefined \<Longrightarrow> \<exists>v. get_prop args k = Inr v"
  by (cases args) auto

lemma get_prop_Inr_not_null:
  "get_prop args k = Inr v \<Longrightarrow> args \<noteq> JNull \<and> args \<noteq> JUndefined"
  by (cases args) auto

lemma execute_action_not_function:
  "tc_type action \<noteq> ''function'' \<Longrightarrow> execute_action E cap action outputs s = (Inr outputs, s)"
  by (simp add: execute_action_def)

lemma execute_action_unrecognised:
  assumes "tc_type action = ''function''" "name (tc_function action) \<notin> set handled_names"
    "JSON_parse E (arguments (tc_function action)) = Some args"
  shows "execute_action E cap action outputs s = (Inr outputs, s)"
  using assms by (simp add: execute_action_def handled_names_def)

lemma execute_action_zoom:
  assumes "tc_type action = ''function''" "name (tc_function action) = ''changeMapZoomLevel''"
    "JSON_parse E (arguments (tc_function action)) = Some args"
    "get_prop args ''zoomLevel'' = Inr z"
  shows "execute_action E cap action outputs s =
           (Inr (outputs @ [\<lparr>tool_call_id = tc_id action,
                             output = fst (changeMapZoomLevel E cap z s)\<rparr>]),
            snd (changeMapZoomLevel E cap z s))"
  using assms by (simp add: execute_action_def split: prod.splits)

lemma execute_action_center:
  assumes "tc_type action = ''function''" "name (tc_function action) = ''changeMapCenter''"
    "JSON_parse E (arguments (tc_function action)) = Some args"
    "get_prop args ''latitude'' = Inr la" "get_prop args ''longitude'' = Inr lo"
    "get_prop args ''zoomLevel'' = Inr z"
    "changeMapCenter E cap la lo z s = (res, s')"
  shows "execute_action E cap action outputs s =
           (case res of
              Inl e \<Rightarrow> (Inl e, s')
            | Inr response \<Rightarrow>
                (Inr (outputs @ [\<lparr>tool_call_id = tc_id action, output = response\<rparr>]), s'))"
  using assms by (simp add: execute_action_def split: sum.splits)

lemma execute_action_locations:
  assumes "tc_type action = ''function''" "name (tc_function action) = ''addLocationsToMap''"
    "JSON_parse E (arguments (tc_function action)) = Some args"
    "get_prop args ''markers'' = Inr m" "get_prop args ''centerLatitude'' = Inr la"
    "get_prop args ''centerLongitude'' = Inr lo" "get_prop args ''zoomLevel'' = Inr z"
    "addLocationsToMap E cap m la lo z s = (res, s')"
  shows "execute_action E cap action outputs s =
           (case res of
              Inl e \<Rightarrow> (Inl e, s')
            | Inr response \<Rightarrow>
                (Inr (outputs @ [\<lparr>tool_call_id = tc_id action, output = response\<rparr>]), s'))"
  using assms by (simp add: execute_action_def split: sum.splits)

lemma changeMapCenter_returns:
  assumes "stringifies la" "stringifies lo"
  shows "\<exists>s'. changeMapCenter E cap la lo z s = (Inr ''Map centered set successfully.'', s')"
  using assms by (simp add: changeMapCenter_def Let_def)

lemma changeMapCenter_throws:
  assumes "\<not> (stringifies la \<and> stringifies lo)"
  shows "changeMapCenter E cap la lo z s = (Inl TypeError, s)"
  using assms by (auto simp add: changeMapCenter_def)

lemma addLocationsToMap_returns:
  assumes "get_prop m ''length'' = Inr n" "stringifies n"
  shows "\<exists>s'. addLocationsToMap E cap m la lo z s = (Inr ''Map locations marked successfully.'', s')"
  using assms by (simp add: addLocationsToMap_def Let_def)

lemma addLocationsToMap_throws:
  assumes "case get_prop m ''length'' of Inl e \<Rightarrow> True | Inr n \<Rightarrow> \<not> stringifies n"
  shows "\<exists>e. addLocationsToMap E cap m la lo z s = (Inl e, s)"
  using assms by (auto simp add: addLocationsToMap_def split: sum.splits)

text \<open>What a call needs for its handler, spelled out.\<close>

lemma well_formed_call_function:
  assumes "well_formed_call E action" "tc_type action = ''function''"
  obtains args where "JSON_parse E (arguments (tc_function action)) = Some args"
  using assms by (auto simp: well_formed_call_def split: option.splits)

lemma well_formed_call_handled:
  assumes "well_formed_call E action" "handled action"
    "JSON_parse E (arguments (tc_function action)) = Some args"
  shows "args \<noteq> JNull \<and> args \<noteq> JUndefined"
  using assms
  by (auto simp: well_formed_call_def handled_def handled_names_def
      split: if_splits sum.splits)

lemma well_formed_call_center:
  assumes "well_formed_call E action" "tc_type action = ''function''"
    "name (tc_function action) = ''changeMapCenter''"
    "JSON_parse E (arguments (tc_function action)) = Some args"
    "get_prop args ''latitude'' = Inr la" "get_prop args ''longitude'' = Inr lo"
  shows "stringifies la \<and> stringifies lo"
  using assms by (simp add: well_formed_call_def)

lemma well_formed_call_locations:
  assumes "well_formed_call E action" "tc_type action = ''function''"
    "name (tc_function action) = ''addLocationsToMap''"
    "JSON_parse E (arguments (tc_function action)) = Some args"
    "get_prop args ''markers'' = Inr m"
  shows "\<exists>n. get_prop m ''length'' = Inr n \<and> stringifies n"
  using assms by (auto simp add: well_formed_call_def split: sum.splits)

lemma execute_action_handled:
  assumes "handled action" "well_formed_call E action"
  shows "\<exists>s'. execute_action E cap action outputs s =
           (Inr (outputs @ [\<lparr>tool_call_id = tc_id action,
                             output = success_response (name (tc_function action))\<rparr>]), s')"
proof -
  from assms have fn: "tc_type action = ''function''"
    and nm: "name (tc_function action) \<in> set handled_names"
    by (simp_all add: handled_def)
  from assms(2) fn obtain args where
    parse: "JSON_parse E (arguments (tc_function action)) = Some args"
    by (rule well_formed_call_function)
  from well_formed_call_handled [OF assms(2,1) parse]
  have nn: "args \<noteq> JNull" "args \<noteq> JUndefined" by simp_all
  from nm consider
      (zoom) "name (tc_function action) = ''changeMapZoomLevel''"
    | (center) "name (tc_function action) = ''changeMapCenter''"
    | (locations) "name (tc_function action) = ''addLocationsToMap''"
    by (auto simp: handled_names_def)
  then show ?thesis
  proof cases
    case zoom
    obtain z where "get_prop args ''zoomLevel'' = Inr z"
      using get_prop_defined [OF nn] by blast
    from execute_action_zoom [OF fn zoom parse this] zoom show ?thesis
      by (simp add: success_response_def changeMapZoomLevel_def Let_def)
  next
    case center
    obtain la lo z where props: "get_prop args ''latitude'' = Inr la"
      "get_prop args ''longitude'' = Inr lo" "get_prop args ''zoomLevel'' = Inr z"
      using get_prop_defined [OF nn] by meson
    from well_formed_call_center [OF assms(2) fn center parse props(1,2)]
    have "stringifies la" "stringifies lo" by simp_all
    from changeMapCenter_returns [OF this] obtain s' where
      "changeMapCenter E cap la lo z s = (Inr ''Map centered set successfully.'', s')"
      by blast
    from execute_action_center [OF fn center parse props this] center show ?thesis
      by (auto simp add: success_response_def)
  next
    case locations
    obtain m la lo z where props: "get_prop args ''markers'' = Inr m"
      "get_prop args ''centerLatitude'' = Inr la"
      "get_prop args ''centerLongitude'' = Inr lo" "get_prop args ''zoomLevel'' = Inr z"
      using get_prop_defined [OF nn] by meson
    from well_formed_call_locations [OF assms(2) fn locations parse props(1)]
    obtain n where "get_prop m ''length'' = Inr n" "stringifies n" by blast
    from addLocationsToMap_returns [OF this] obtain s' where
      "addLocationsToMap E cap m la lo z s = (Inr ''Map locations marked successfully.'', s')"
      by blast
    from execute_action_locations [OF fn locations parse props this] locations show ?thesis
      by (auto simp add: success_response_def)
  qed
qed

lemma execute_action_skipped:
  assumes "\<not> handled action" "well_formed_call E action"
  shows "execute_action E cap action outputs s = (Inr outputs, s)"
proof (cases "tc_type action = ''function''")
  case False
  then show ?thesis by (rule execute_action_not_function)
next
  case True
  with assms(2) obtain args where
    parse: "JSON_parse E (arguments (tc_function action)) = Some args"
    by (auto simp: well_formed_call_def split: option.splits)
  from assms(1) True have "name (tc_function action) \<notin> set handled_names"
    by (simp add: handled_def)
  from execute_action_unrecognised [OF True this parse] show ?thesis .
qed

lemma execute_action_throws:
  assumes "\<not> well_formed_call E action"
  shows "\<exists>e. execute_action E cap action outputs s = (Inl e, s)"
proof -
  from assms have fn: "tc_type action = ''function''"
    by (auto simp: well_formed_call_def split: if_splits)
  show ?thesis
  proof (cases "JSON_parse E (arguments (tc_function action))")
    case None
    with fn show ?thesis by (simp add: execute_action_def)
  next
    case (Some args)
    from assms fn Some consider
        (zoom) "name (tc_function action) = ''changeMapZoomLevel''"
          "args = JNull \<or> args = JUndefined"
      | (center) "name (tc_function action) = ''changeMapCenter''"
      | (locations) "name (tc_function action) = ''addLocationsToMap''"
      by (auto simp: well_formed_call_def split: if_splits)
    then show ?thesis
    proof cases
      case zoom
      with fn Some show ?thesis by (auto simp: execute_action_def)
    next
      case center
      show ?thesis
      proof (cases "args = JNull \<or> args = JUndefined")
        case True
        with fn Some center show ?thesis by (auto simp: execute_action_def)
      next
        case False
        then obtain la lo z where props: "get_prop args ''latitude'' = Inr la"
          "get_prop args ''longitude'' = Inr lo" "get_prop args ''zoomLevel'' = Inr z"
          using get_prop_defined [of args] by meson
        with assms fn Some center have "\<not> (stringifies la \<and> stringifies lo)"
          by (auto simp: well_formed_call_def)
        from execute_action_center [OF fn center Some props changeMapCenter_throws [OF this]]
        show ?thesis by simp
      qed
    next
      case locations
      show ?thesis
      proof (cases "args = JNull \<or> args = JUndefined")
        case True
        with fn Some locations show ?thesis by (auto simp: execute_action_def)
      next
        case False
        then obtain m la lo z where props: "get_prop args ''markers'' = Inr m"
          "get_prop args ''centerLatitude'' = Inr la"
          "get_prop args ''centerLongitude'' = Inr lo" "get_prop args ''zoomLevel'' = Inr z"
          using get_prop_defined [of args] by meson
        with assms fn Some locations
        have "case get_prop m ''length'' of Inl e \<Rightarrow> True | Inr n \<Rightarrow> \<not> stringifies n"
          by (auto simp: well_formed_call_def split: sum.splits)
        from addLocationsToMap_throws [OF this, of E cap la lo z s] obtain e where
          "addLocationsToMap E cap m la lo z s = (Inl e, s)" by blast
        from execute_action_locations [OF fn locations Some props this]
        show ?thesis by simp
      qed
    qed
  qed
qed

lemma for_actions_skips:
  assumes "\<forall>a \<in> set calls. well_formed_call E a"
  shows "for_actions E cap calls outputs s = for_actions E cap (filter handled calls) outputs s"
  using assms
proof (induction calls arbitrary: outputs s)
  case Nil
  show ?case by simp
next
  case (Cons a calls)
  then have wf: "well_formed_call E a" and rest: "\<forall>a \<in> set calls. well_formed_call E a"
    by simp_all
  show ?case
  proof (cases "handled a")
    case True
    from execute_action_handled [OF True wf] obtain s' where
      "execute_action E cap a outputs s =
         (Inr (outputs @ [\<lparr>tool_call_id = tc_id a,
                           output = success_response (name (tc_function a))\<rparr>]), s')"
      by blast
    with True Cons.IH [OF rest] show ?thesis by simp
  next
    case False
    from execute_action_skipped [OF False wf] False Cons.IH [OF rest] show ?thesis by simp
  qed
qed

lemma for_actions_outputs:
  assumes "\<forall>a \<in> set calls. well_formed_call E a"
  shows "fst (for_actions E cap calls outputs s) =
             Inr (outputs @ map (\<lambda>a. \<lparr>tool_call_id = tc_id a,
                                       output = success_response (name (tc_function a))\<rparr>)
                              (filter handled calls))"
  using assms
proof (induction calls arbitrary: outputs s)
  case Nil
  show ?case by simp
next
  case (Cons a calls)
  then have wf: "well_formed_call E a" and rest: "\<forall>a \<in> set calls. well_formed_call E a"
    by simp_all
  show ?case
  proof (cases "handled a")
    case True
    from execute_action_handled [OF True wf] obtain s' where
      "execute_action E cap a outputs s =
         (Inr (outputs @ [\<lparr>tool_call_id = tc_id a,
                           output = success_response (name (tc_function a))\<rparr>]), s')"
      by blast
    with True Cons.IH [OF rest] show ?thesis by simp
  next
    case False
    from execute_action_skipped [OF False wf] False Cons.IH [OF rest] show ?thesis by simp
  qed
qed

lemma for_actions_throws:
  assumes "\<not> well_formed_call E a" "\<forall>b \<in> set before. well_formed_call E b"
  shows "\<exists>e s'. for_actions E cap (before @ a # after) outputs s = (Inl e, s')"
  using assms(2)
proof (induction before arbitrary: outputs s)
  case Nil
  from execute_action_throws [OF assms(1)] obtain e where
    "execute_action E cap a outputs s = (Inl e, s)" by blast
  then show ?case by simp
next
  case (Cons b before)
  then have wf: "well_formed_call E b" and rest: "\<forall>b \<in> set before. well_formed_call E b"
    by simp_all
  show ?case
  proof (cases "handled b")
    case True
    from execute_action_handled [OF True wf] obtain s' where
      "execute_action E cap b outputs s =
         (Inr (outputs @ [\<lparr>tool_call_id = tc_id b,
                           output = success_response (name (tc_function b))\<rparr>]), s')"
      by blast
    with Cons.IH [OF rest] show ?thesis by simp
  next
    case False
    from execute_action_skipped [OF False wf] Cons.IH [OF rest] show ?thesis by simp
  qed
qed

subsection \<open>The outputs of executeAssistantActions\<close>

text \<open>
  C8 (as amended). When every function call of the run has arguments that
  \<^verbatim>\<open>JSON.parse\<close> accepts (and that the handler it names can read),
  \<open>executeAssistantActions\<close> returns, in the order of \<open>tool_calls\<close>, exactly one output
  for each call of type \<^verbatim>\<open>function\<close> with one of the three handled names, carrying
  that call's id and the handler's success string; the calls of another type or name
  change neither the outputs nor the state (the run without them gives the same result);
  and a run without \<open>required_action\<close> gives no output and leaves the state as it is.
\<close>

theorem executeAssistantActions_outputs:
  assumes "required_action r = Some ra"
    and "\<forall>action \<in> set (tool_calls (submit_tool_outputs ra)). well_formed_call E action"
  shows "fst (executeAssistantActions E cap r s) =
           Inr (map (\<lambda>a. \<lparr>tool_call_id = tc_id a,
                            output = success_response (name (tc_function a))\<rparr>)
                   (filter handled (tool_calls (submit_tool_outputs ra))))
         \<and> executeAssistantActions E cap r s =
             executeAssistantActions E cap
               (r\<lparr>required_action :=
                    Some \<lparr>submit_tool_outputs =
                            \<lparr>tool_calls = filter handled (tool_calls (submit_tool_outputs ra))\<rparr>\<rparr>\<rparr>) s
         \<and> executeAssistantActions E cap (r\<lparr>required_action := None\<rparr>) s = (Inr [], s)"
  using assms(1) for_actions_skips [OF assms(2), of cap "[]"]
    for_actions_outputs [OF assms(2), of cap "[]"]
  by (simp add: executeAssistantActions_def)

text \<open>A run with an unrecognised function, the three handled functions and a call of
  another type.\<close>

theorem executeAssistantActions_outputs_witness:
  \<open>list_all (well_formed_call sample_env) sample_calls
   \<and> fst (executeAssistantActions sample_env initial_state
          (sample_run ''requires_action'' (Some sample_calls)) mount)
     = Inr [\<lparr>tool_call_id = ''call_2'', output = ''Map mapZoomLevel level set successfully.''\<rparr>,
            \<lparr>tool_call_id = ''call_3'', output = ''Map centered set successfully.''\<rparr>,
            \<lparr>tool_call_id = ''call_4'', output = ''Map locations marked successfully.''\<rparr>]\<close>
proof -
  let ?ra = "\<lparr>submit_tool_outputs = \<lparr>tool_calls = sample_calls\<rparr>\<rparr>"
  have h1: "required_action (sample_run ''requires_action'' (Some sample_calls)) = Some ?ra"
    by (simp add: sample_run_def)
  have w: "list_all (well_formed_call sample_env) sample_calls"
    by (simp add: sample_calls_def sample_defs well_formed_call_def)
  then have h2:
    "\<forall>action \<in> set (tool_calls (submit_tool_outputs ?ra)). well_formed_call sample_env action"
    by (simp add: list_all_iff)
  note r = conjunct1 [OF executeAssistantActions_outputs [OF h1 h2, of initial_state mount]]
  have v: \<open>map (\<lambda>a. \<lparr>tool_call_id = tc_id a,
                         output = success_response (name (tc_function a))\<rparr>)
             (filter handled (tool_calls (submit_tool_outputs ?ra)))
           = [\<lparr>tool_call_id = ''call_2'',
               output = ''Map mapZoomLevel level set successfully.''\<rparr>,
              \<lparr>tool_call_id = ''call_3'', output = ''Map centered set successfully.''\<rparr>,
              \<lparr>tool_call_id = ''call_4'',
               output = ''Map locations marked successfully.''\<rparr>]\<close>
    by (simp add: sample_calls_def handled_def handled_names_def success_response_def
        sample_call_def)
  have \<open>fst (executeAssistantActions sample_env initial_state
               (sample_run ''requires_action'' (Some sample_calls)) mount)
         = Inr [\<lparr>tool_call_id = ''call_2'',
                  output = ''Map mapZoomLevel level set successfully.''\<rparr>,
                \<lparr>tool_call_id = ''call_3'', output = ''Map centered set successfully.''\<rparr>,
                \<lparr>tool_call_id = ''call_4'',
                  output = ''Map locations marked successfully.''\<rparr>]\<close>
    using r by (simp only: v)
  with w show ?thesis by blast
qed

text \<open>
  C8 as stated fails: a function call with an unrecognised name is parsed before its
  name is looked at. With the empty string as its arguments the call is not skipped:
  \<open>executeAssistantActions\<close> throws, the zoom change behind it is never executed, and
  no output comes back.
\<close>

theorem executeAssistantActions_unparsable_unrecognised:
  \<open>fst (executeAssistantActions sample_env initial_state
          (sample_run ''requires_action''
             (Some [sample_call ''call_1'' ''lookupWeather'' '''',
                    sample_call ''call_2'' ''changeMapZoomLevel'' ''{"zoomLevel":5}''])) mount)
     = Inl SyntaxError
   \<and> mapZoomLevel (st (snd (executeAssistantActions sample_env initial_state
          (sample_run ''requires_action''
             (Some [sample_call ''call_1'' ''lookupWeather'' '''',
                    sample_call ''call_2'' ''changeMapZoomLevel'' ''{"zoomLevel":5}''])) mount)))
     = JNum 12\<close>
  by (simp add: executeAssistantActions_def execute_action_def sample_defs mount_defs setter_defs)

subsection \<open>The dispatch of executeAssistantActions\<close>

text \<open>
  C2 (as amended). The loop dispatches on three names. For a call of type
  \<^verbatim>\<open>function\<close> that the loop reaches and whose arguments parse to a value the
  handler can read, it calls the handler of that name with the properties of the parsed
  arguments, appends one output with the call's id and the handler's response, and goes
  on with the rest; for any other name it goes on with outputs and state unchanged.
\<close>

theorem executeAssistantActions_dispatch:
  assumes "tc_type action = ''function''"
    and "JSON_parse E (arguments (tc_function action)) = Some args"
    and "well_formed_call E action"
  shows "(name (tc_function action) = ''changeMapZoomLevel'' \<longrightarrow>
            (\<exists>z. get_prop args ''zoomLevel'' = Inr z
               \<and> for_actions E cap (action # rest) outputs s =
                   for_actions E cap rest
                     (outputs @ [\<lparr>tool_call_id = tc_id action,
                                   output = fst (changeMapZoomLevel E cap z s)\<rparr>])
                     (snd (changeMapZoomLevel E cap z s))))
       \<and> (name (tc_function action) = ''changeMapCenter'' \<longrightarrow>
            (\<exists>la lo z response s'. get_prop args ''latitude'' = Inr la
               \<and> get_prop args ''longitude'' = Inr lo
               \<and> get_prop args ''zoomLevel'' = Inr z
               \<and> changeMapCenter E cap la lo z s = (Inr response, s')
               \<and> for_actions E cap (action # rest) outputs s =
                   for_actions E cap rest
                     (outputs @ [\<lparr>tool_call_id = tc_id action, output = response\<rparr>]) s'))
       \<and> (name (tc_function action) = ''addLocationsToMap'' \<longrightarrow>
            (\<exists>m la lo z response s'. get_prop args ''markers'' = Inr m
               \<and> get_prop args ''centerLatitude'' = Inr la
               \<and> get_prop args ''centerLongitude'' = Inr lo
               \<and> get_prop args ''zoomLevel'' = Inr z
               \<and> addLocationsToMap E cap m la lo z s = (Inr response, s')
               \<and> for_actions E cap (action # rest) outputs s =
                   for_actions E cap rest
                     (outputs @ [\<lparr>tool_call_id = tc_id action, output = response\<rparr>]) s'))
       \<and> (name (tc_function action) \<notin> set handled_names \<longrightarrow>
            for_actions E cap (action # rest) outputs s = for_actions E cap rest outputs s)"
proof (intro conjI impI)
  assume nm: "name (tc_function action) = ''changeMapZoomLevel''"
  with assms have nn: "args \<noteq> JNull" "args \<noteq> JUndefined"
    by (auto simp: well_formed_call_def)
  obtain z where z: "get_prop args ''zoomLevel'' = Inr z"
    using get_prop_defined [OF nn] by blast
  from execute_action_zoom [OF assms(1) nm assms(2) z] z
  show "\<exists>z. get_prop args ''zoomLevel'' = Inr z
               \<and> for_actions E cap (action # rest) outputs s =
                   for_actions E cap rest
                     (outputs @ [\<lparr>tool_call_id = tc_id action,
                                   output = fst (changeMapZoomLevel E cap z s)\<rparr>])
                     (snd (changeMapZoomLevel E cap z s))"
    by simp
next
  assume nm: "name (tc_function action) = ''changeMapCenter''"
  with assms have nn: "args \<noteq> JNull" "args \<noteq> JUndefined"
    by (auto simp: well_formed_call_def split: sum.splits)
  obtain la lo z where p: "get_prop args ''latitude'' = Inr la"
      "get_prop args ''longitude'' = Inr lo" "get_prop args ''zoomLevel'' = Inr z"
    using get_prop_defined [OF nn] by meson
  from well_formed_call_center [OF assms(3,1) nm assms(2) p(1,2)]
  have "stringifies la" "stringifies lo" by simp_all
  from changeMapCenter_returns [OF this] obtain s' where
    a: "changeMapCenter E cap la lo z s = (Inr ''Map centered set successfully.'', s')"
    by blast
  from execute_action_center [OF assms(1) nm assms(2) p a] p a
  show "\<exists>la lo z response s'. get_prop args ''latitude'' = Inr la
               \<and> get_prop args ''longitude'' = Inr lo
               \<and> get_prop args ''zoomLevel'' = Inr z
               \<and> changeMapCenter E cap la lo z s = (Inr response, s')
               \<and> for_actions E cap (action # rest) outputs s =
                   for_actions E cap rest
                     (outputs @ [\<lparr>tool_call_id = tc_id action, output = response\<rparr>]) s'"
    by auto
next
  assume nm: "name (tc_function action) = ''addLocationsToMap''"
  with assms have nn: "args \<noteq> JNull" "args \<noteq> JUndefined"
    by (auto simp: well_formed_call_def split: sum.splits)
  obtain m la lo z where p: "get_prop args ''markers'' = Inr m"
      "get_prop args ''centerLatitude'' = Inr la"
      "get_prop args ''centerLongitude'' = Inr lo" "get_prop args ''zoomLevel'' = Inr z"
    using get_prop_defined [OF nn] by meson
  from well_formed_call_locations [OF assms(3,1) nm assms(2) p(1)]
  obtain n where "get_prop m ''length'' = Inr n" "stringifies n" by blast
  from addLocationsToMap_returns [OF this] obtain s' where
    a: "addLocationsToMap E cap m la lo z s = (Inr ''Map locations marked successfully.'', s')"
    by blast
  from execute_action_locations [OF assms(1) nm assms(2) p a] p a
  show "\<exists>m la lo z response s'. get_prop args ''markers'' = Inr m
               \<and> get_prop args ''centerLatitude'' = Inr la
               \<and> get_prop args ''centerLongitude'' = Inr lo
               \<and> get_prop args ''zoomLevel'' = Inr z
               \<and> addLocationsToMap E cap m la lo z s = (Inr response, s')
               \<and> for_actions E cap (action # rest) outputs s =
                   for_actions E cap rest
                     (outputs @ [\<lparr>tool_call_id = tc_id action, output = response\<rparr>]) s'"
    by auto
next
  assume "name (tc_function action) \<notin> set handled_names"
  from execute_action_unrecognised [OF assms(1) this assms(2)]
  show "for_actions E cap (action # rest) outputs s = for_actions E cap rest outputs s"
    by simp
qed

text \<open>A zoom change whose arguments parse.\<close>

theorem executeAssistantActions_dispatch_witness:
  \<open>tc_type (sample_call ''call_1'' ''changeMapZoomLevel'' ''{"zoomLevel":5}'') = ''function''
   \<and> JSON_parse sample_env
        (arguments (tc_function (sample_call ''call_1'' ''changeMapZoomLevel'' ''{"zoomLevel":5}'')))
       = Some (JObj [(''zoomLevel'', JNum 5)])
   \<and> well_formed_call sample_env (sample_call ''call_1'' ''changeMapZoomLevel'' ''{"zoomLevel":5}'')
   \<and> fst (for_actions sample_env initial_state
             [sample_call ''call_1'' ''changeMapZoomLevel'' ''{"zoomLevel":5}''] [] mount)
       = Inr [\<lparr>tool_call_id = ''call_1'', output = ''Map mapZoomLevel level set successfully.''\<rparr>]
   \<and> mapZoomLevel (st (snd (for_actions sample_env initial_state
             [sample_call ''call_1'' ''changeMapZoomLevel'' ''{"zoomLevel":5}''] [] mount)))
       = JNum 5\<close>
proof -
  let ?a = \<open>sample_call ''call_1'' ''changeMapZoomLevel'' ''{"zoomLevel":5}''\<close>
  have h1: "tc_type ?a = ''function''"
    by (simp add: sample_defs)
  have h2: "JSON_parse sample_env (arguments (tc_function ?a)) = Some (JObj [(''zoomLevel'', JNum 5)])"
    by (simp add: sample_defs)
  have h3: "well_formed_call sample_env ?a"
    by (simp add: sample_defs well_formed_call_def)
  have nm: "name (tc_function ?a) = ''changeMapZoomLevel''"
    by (simp add: sample_defs)
  from executeAssistantActions_dispatch [OF h1 h2 h3, of initial_state "[]" "[]" mount] nm
  obtain z where z: "get_prop (JObj [(''zoomLevel'', JNum 5)]) ''zoomLevel'' = Inr z"
    and eq: "for_actions sample_env initial_state [?a] [] mount =
             for_actions sample_env initial_state []
               ([] @ [\<lparr>tool_call_id = tc_id ?a,
                        output = fst (changeMapZoomLevel sample_env initial_state z mount)\<rparr>])
               (snd (changeMapZoomLevel sample_env initial_state z mount))"
    by blast
  from z have "z = JNum 5" by simp
  with h1 h2 h3 show ?thesis
    unfolding eq by (simp add: changeMapZoomLevel_def setter_defs sample_call_def)
qed

text \<open>
  C2 as stated fails: the arguments \<^verbatim>\<open>null\<close> are JSON, and reading
  \<^verbatim>\<open>args.zoomLevel\<close> of the parsed \<^verbatim>\<open>null\<close> throws. The call bears a handled
  name, yet no handler runs (the zoom level stays 12) and no output is recorded.
\<close>

theorem executeAssistantActions_null_arguments:
  \<open>fst (executeAssistantActions sample_env initial_state
          (sample_run ''requires_action''
             (Some [sample_call ''call_1'' ''changeMapZoomLevel'' ''null''])) mount)
     = Inl TypeError
   \<and> mapZoomLevel (st (snd (executeAssistantActions sample_env initial_state
          (sample_run ''requires_action''
             (Some [sample_call ''call_1'' ''changeMapZoomLevel'' ''null''])) mount)))
     = JNum 12\<close>
  by (simp add: executeAssistantActions_def execute_action_def sample_defs mount_defs setter_defs)

subsection \<open>What executeAssistantActions leaves alone\<close>

lemma same_surroundings_refl: "same_surroundings s s"
  by (simp add: same_surroundings_def)

lemma same_surroundings_trans:
  "same_surroundings s s' \<Longrightarrow> same_surroundings s' s'' \<Longrightarrow> same_surroundings s s''"
  by (simp add: same_surroundings_def)

lemma changeMapZoomLevel_surroundings:
  "changeMapZoomLevel E cap z s = (response, s') \<Longrightarrow> same_surroundings s s'"
  by (auto simp add: same_surroundings_def changeMapZoomLevel_def setter_defs)

lemma changeMapCenter_surroundings:
  "changeMapCenter E cap la lo z s = (res, s') \<Longrightarrow> same_surroundings s s'"
  by (auto simp add: same_surroundings_def changeMapCenter_def setter_defs split: if_splits)

lemma addLocationsToMap_surroundings:
  "addLocationsToMap E cap m la lo z s = (res, s') \<Longrightarrow> same_surroundings s s'"
  by (auto simp add: same_surroundings_def addLocationsToMap_def setter_defs
      split: sum.splits if_splits)

lemma execute_action_surroundings:
  "execute_action E cap action outputs s = (res, s') \<Longrightarrow> same_surroundings s s'"
  unfolding execute_action_def
  by (auto simp: same_surroundings_refl
      intro: changeMapZoomLevel_surroundings changeMapCenter_surroundings
        addLocationsToMap_surroundings
      split: if_splits option.splits sum.splits prod.splits)

lemma for_actions_surroundings:
  "for_actions E cap calls outputs s = (res, s') \<Longrightarrow> same_surroundings s s'"
proof (induction calls arbitrary: outputs s)
  case Nil
  then show ?case by (simp add: same_surroundings_refl)
next
  case (Cons a calls)
  obtain r1 s1 where a: "execute_action E cap a outputs s = (r1, s1)"
    by (cases "execute_action E cap a outputs s")
  from execute_action_surroundings [OF a] have f1: "same_surroundings s s1" .
  show ?case
  proof (cases r1)
    case (Inl e)
    with a Cons.prems f1 show ?thesis by simp
  next
    case (Inr outputs')
    with a Cons.prems have "for_actions E cap calls outputs' s1 = (res, s')" by simp
    from same_surroundings_trans [OF f1 Cons.IH [OF this]] show ?thesis .
  qed
qed

lemma executeAssistantActions_surroundings:
  "executeAssistantActions E cap r s = (res, s') \<Longrightarrow> same_surroundings s s'"
proof (cases "required_action r")
  case None
  assume "executeAssistantActions E cap r s = (res, s')"
  with None show ?thesis by (simp add: executeAssistantActions_def same_surroundings_refl)
next
  case (Some ra)
  assume "executeAssistantActions E cap r s = (res, s')"
  with Some have "for_actions E cap (tool_calls (submit_tool_outputs ra)) []
       (Logger_debug ''Executing required actions for the assistant'' s) = (res, s')"
    by (simp add: executeAssistantActions_def)
  from for_actions_surroundings [OF this] show ?thesis
    by (simp add: same_surroundings_def Logger_debug_def)
qed

text \<open>What \<open>executeAssistantActions\<close> returns, by the shape of the run.\<close>

lemma executeAssistantActions_returns:
  assumes "\<forall>a \<in> set (run_tool_calls r). well_formed_call E a"
  shows "fst (executeAssistantActions E cap r s) =
           Inr (map (\<lambda>a. \<lparr>tool_call_id = tc_id a,
                            output = success_response (name (tc_function a))\<rparr>)
                   (filter handled (run_tool_calls r)))"
proof (cases "required_action r")
  case None
  then show ?thesis by (simp add: executeAssistantActions_def run_tool_calls_def)
next
  case (Some ra)
  with assms have "\<forall>a \<in> set (tool_calls (submit_tool_outputs ra)). well_formed_call E a"
    by (simp add: run_tool_calls_def)
  from for_actions_outputs [OF this, of cap "[]"] Some show ?thesis
    by (simp add: executeAssistantActions_def run_tool_calls_def)
qed

lemma executeAssistantActions_throws:
  assumes "\<not> (\<forall>a \<in> set (run_tool_calls r). well_formed_call E a)"
  shows "\<exists>e. fst (executeAssistantActions E cap r s) = Inl e"
proof -
  from assms obtain before a after where
    split: "run_tool_calls r = before @ a # after"
    and bad: "\<not> well_formed_call E a"
    and good: "\<forall>b \<in> set before. well_formed_call E b"
    using split_list_first_prop [of "run_tool_calls r" "\<lambda>a. \<not> well_formed_call E a"]
    by auto
  from split obtain ra where ra: "required_action r = Some ra"
    by (cases "required_action r") (auto simp: run_tool_calls_def)
  with split have calls: "tool_calls (submit_tool_outputs ra) = before @ a # after"
    by (simp add: run_tool_calls_def)
  from for_actions_throws [OF bad good, of cap after "[]"
      "Logger_debug ''Executing required actions for the assistant'' s"]
  show ?thesis using ra calls by (auto simp: executeAssistantActions_def)
qed

subsection \<open>Tool actions and the status of the run\<close>

lemma submissions_submitFunctionOutputs:
  "submissions (submitFunctionOutputs outputs runId s) = submissions s @ [PostOutputs runId outputs]"
  by (simp add: submissions_def submitFunctionOutputs_def setter_defs)

lemma requires_action_active: "status r = ''requires_action'' \<Longrightarrow> isRunActive (Some r)"
  by (simp add: isRunActive_def)

lemma then_without_action:
  assumes "status r \<noteq> ''requires_action''"
  shows "fetchOpenRun_then E cap (Some r) s =
           (Inr (), if isRunActive (Some r) then setCurrentRun (Some r) s else s)"
    and "pollCurrentRunStatus_then E cap r s =
           (Inr (), if isRunActive (Some r) then setCurrentRun (Some r) s
                    else fetchMessages False (setCurrentRun (Some r) s))"
  using assms by (simp_all add: fetchOpenRun_then_def pollCurrentRunStatus_then_def Let_def)

lemma then_with_action:
  assumes "status r = ''requires_action''"
  shows "fetchOpenRun_then E cap (Some r) s =
           (case executeAssistantActions E cap r (setCurrentRun (Some r) s) of
              (Inl e, s2) \<Rightarrow> (Inl e, s2)
            | (Inr outputs, s2) \<Rightarrow> (Inr (), submitFunctionOutputs outputs (run_id r) s2))"
    and "pollCurrentRunStatus_then E cap r s =
           (case executeAssistantActions E cap r (setCurrentRun (Some r) s) of
              (Inl e, s2) \<Rightarrow> (Inl e, s2)
            | (Inr outputs, s2) \<Rightarrow> (Inr (), submitFunctionOutputs outputs (run_id r) s2))"
  using assms requires_action_active [OF assms]
  by (simp_all add: fetchOpenRun_then_def pollCurrentRunStatus_then_def Let_def)

lemma submissions_mount: "submissions mount = []"
  by (simp add: submissions_def mount_defs setter_defs)

lemma then_throws:
  assumes "status r = ''requires_action''"
    and "\<not> (\<forall>a \<in> set (run_tool_calls r). well_formed_call E a)"
  shows "\<exists>e s1. fetchOpenRun_then E cap (Some r) s = (Inl e, s1)
           \<and> submissions s1 = submissions s"
    and "\<exists>e s1. pollCurrentRunStatus_then E cap r s = (Inl e, s1)
           \<and> submissions s1 = submissions s"
proof -
  let ?s1 = "setCurrentRun (Some r) s"
  obtain res s2 where ex: "executeAssistantActions E cap r ?s1 = (res, s2)"
    by (cases "executeAssistantActions E cap r ?s1")
  from executeAssistantActions_throws [OF assms(2), of cap ?s1] ex
  obtain e where res: "res = Inl e" by auto
  from executeAssistantActions_surroundings [OF ex]
  have sub: "submissions s2 = submissions s"
    by (simp add: same_surroundings_def submissions_def setCurrentRun_def)
  note t = then_with_action [OF assms(1), of E cap s]
  show "\<exists>e s1. fetchOpenRun_then E cap (Some r) s = (Inl e, s1)
           \<and> submissions s1 = submissions s"
    and "\<exists>e s1. pollCurrentRunStatus_then E cap r s = (Inl e, s1)
           \<and> submissions s1 = submissions s"
    by (simp_all add: t ex res sub)
qed

text \<open>An error thrown in the \<^verbatim>\<open>.then\<close> callback is logged by the \<^verbatim>\<open>.catch\<close> of
  the chain.\<close>

lemma settle_throw_logged:
  "fetchOpenRun_then E initial_state latestRun s = (Inl e, s1) \<Longrightarrow>
     settle E GetRuns (RunsResponse latestRun) s = Some (setLoading False (Logger_error e s1))"
  "pollCurrentRunStatus_then E cap r s = (Inl e, s1) \<Longrightarrow>
     settle E (GetRun runId cap) (RunResponse r) s = Some (console_error e s1)"
  by simp_all

lemma submissions_logged:
  "submissions (setLoading b (Logger_error e s)) = submissions s"
  "submissions (console_error e s) = submissions s"
  "logged (setLoading b (Logger_error e s)) = logged s @ [LoggerError e]"
  "logged (console_error e s) = logged s @ [ConsoleError e]"
  by (simp_all add: submissions_def setter_defs)

text \<open>
  C1 (as amended). For a run that \<open>fetchOpenRun\<close> or \<open>pollCurrentRunStatus\<close> receives:
  when its status is not \<^verbatim>\<open>requires_action\<close>, no tool action is executed (map state
  and messages stay, no handler logs) and no outputs are submitted; when its status is
  \<^verbatim>\<open>requires_action\<close> and every function call has arguments that parse and that its
  handler can read, the actions are executed and their outputs are submitted, once, through
  \<open>submitFunctionOutputs\<close>; when one function call has not, \<open>executeAssistantActions\<close>
  throws, nothing is submitted, and when the response settles the error is logged: by
  \<open>Logger.error\<close> in \<open>fetchOpenRun\<close>, by \<open>console.error\<close> in \<open>pollCurrentRunStatus\<close>.
\<close>

theorem tool_actions_gated_by_requires_action:
  "(status r \<noteq> ''requires_action'' \<longrightarrow>
       submissions (snd (fetchOpenRun_then E cap (Some r) s)) = submissions s
     \<and> map_state (snd (fetchOpenRun_then E cap (Some r) s)) = map_state s
     \<and> messages (st (snd (fetchOpenRun_then E cap (Some r) s))) = messages (st s)
     \<and> logged (snd (fetchOpenRun_then E cap (Some r) s)) = logged s
     \<and> submissions (snd (pollCurrentRunStatus_then E cap r s)) = submissions s
     \<and> map_state (snd (pollCurrentRunStatus_then E cap r s)) = map_state s
     \<and> messages (st (snd (pollCurrentRunStatus_then E cap r s))) = messages (st s)
     \<and> logged (snd (pollCurrentRunStatus_then E cap r s)) =
         logged s @ (if isRunActive (Some r) then [] else [LoggerDebug ''Fetching messages'']))
   \<and> (status r = ''requires_action'' \<and> (\<forall>a \<in> set (run_tool_calls r). well_formed_call E a) \<longrightarrow>
       fetchOpenRun_then E cap (Some r) s =
         (Inr (), submitFunctionOutputs (expected_outputs r) (run_id r)
                    (snd (executeAssistantActions E cap r (setCurrentRun (Some r) s))))
     \<and> submissions (snd (fetchOpenRun_then E cap (Some r) s)) =
         submissions s @ [PostOutputs (run_id r) (expected_outputs r)]
     \<and> pollCurrentRunStatus_then E cap r s =
         (Inr (), submitFunctionOutputs (expected_outputs r) (run_id r)
                    (snd (executeAssistantActions E cap r (setCurrentRun (Some r) s))))
     \<and> submissions (snd (pollCurrentRunStatus_then E cap r s)) =
         submissions s @ [PostOutputs (run_id r) (expected_outputs r)])
   \<and> (status r = ''requires_action'' \<and> \<not> (\<forall>a \<in> set (run_tool_calls r). well_formed_call E a) \<longrightarrow>
       (\<exists>e. fst (fetchOpenRun_then E cap (Some r) s) = Inl e)
     \<and> submissions (snd (fetchOpenRun_then E cap (Some r) s)) = submissions s
     \<and> (\<exists>e. fst (pollCurrentRunStatus_then E cap r s) = Inl e)
     \<and> submissions (snd (pollCurrentRunStatus_then E cap r s)) = submissions s
     \<and> (\<exists>e s'. settle E GetRuns (RunsResponse (Some r)) s = Some s'
           \<and> fst (fetchOpenRun_then E initial_state (Some r) s) = Inl e
           \<and> logged s' =
               logged (snd (fetchOpenRun_then E initial_state (Some r) s)) @ [LoggerError e]
           \<and> submissions s' = submissions s)
     \<and> (\<exists>e s'. settle E (GetRun runId cap) (RunResponse r) s = Some s'
           \<and> fst (pollCurrentRunStatus_then E cap r s) = Inl e
           \<and> logged s' =
               logged (snd (pollCurrentRunStatus_then E cap r s)) @ [ConsoleError e]
           \<and> submissions s' = submissions s))"
proof (intro conjI impI)
  assume other: "status r \<noteq> ''requires_action''"
  note t = then_without_action [OF other, of E cap s]
  show "submissions (snd (fetchOpenRun_then E cap (Some r) s)) = submissions s"
    and "map_state (snd (fetchOpenRun_then E cap (Some r) s)) = map_state s"
    and "messages (st (snd (fetchOpenRun_then E cap (Some r) s))) = messages (st s)"
    and "logged (snd (fetchOpenRun_then E cap (Some r) s)) = logged s"
    and "submissions (snd (pollCurrentRunStatus_then E cap r s)) = submissions s"
    and "map_state (snd (pollCurrentRunStatus_then E cap r s)) = map_state s"
    and "messages (st (snd (pollCurrentRunStatus_then E cap r s))) = messages (st s)"
    and "logged (snd (pollCurrentRunStatus_then E cap r s)) =
         logged s @ (if isRunActive (Some r) then [] else [LoggerDebug ''Fetching messages''])"
    by (simp_all add: t submissions_def map_state_def fetchMessages_def setter_defs)
next
  assume "status r = ''requires_action'' \<and> (\<forall>a \<in> set (run_tool_calls r). well_formed_call E a)"
  then have ra: "status r = ''requires_action''"
    and wf: "\<forall>a \<in> set (run_tool_calls r). well_formed_call E a" by simp_all
  let ?s1 = "setCurrentRun (Some r) s"
  obtain res s2 where ex: "executeAssistantActions E cap r ?s1 = (res, s2)"
    by (cases "executeAssistantActions E cap r ?s1")
  from executeAssistantActions_returns [OF wf, of cap ?s1] ex
  have res: "res = Inr (expected_outputs r)" by (simp add: expected_outputs_def)
  from executeAssistantActions_surroundings [OF ex]
  have sub: "submissions s2 = submissions s"
    by (simp add: same_surroundings_def submissions_def setCurrentRun_def)
  note t = then_with_action [OF ra, of E cap s]
  show "fetchOpenRun_then E cap (Some r) s =
         (Inr (), submitFunctionOutputs (expected_outputs r) (run_id r)
                    (snd (executeAssistantActions E cap r ?s1)))"
    and "pollCurrentRunStatus_then E cap r s =
         (Inr (), submitFunctionOutputs (expected_outputs r) (run_id r)
                    (snd (executeAssistantActions E cap r ?s1)))"
    by (simp_all add: t ex res)
  show "submissions (snd (fetchOpenRun_then E cap (Some r) s)) =
         submissions s @ [PostOutputs (run_id r) (expected_outputs r)]"
    and "submissions (snd (pollCurrentRunStatus_then E cap r s)) =
         submissions s @ [PostOutputs (run_id r) (expected_outputs r)]"
    by (simp_all add: t ex res submissions_submitFunctionOutputs sub)
next
  assume "status r = ''requires_action'' \<and> \<not> (\<forall>a \<in> set (run_tool_calls r). well_formed_call E a)"
  then have ra: "status r = ''requires_action''"
    and wf: "\<not> (\<forall>a \<in> set (run_tool_calls r). well_formed_call E a)" by simp_all
  let ?s1 = "setCurrentRun (Some r) s"
  obtain res s2 where ex: "executeAssistantActions E cap r ?s1 = (res, s2)"
    by (cases "executeAssistantActions E cap r ?s1")
  from executeAssistantActions_throws [OF wf, of cap ?s1] ex
  obtain e where res: "res = Inl e" by auto
  from executeAssistantActions_surroundings [OF ex]
  have sub: "submissions s2 = submissions s"
    by (simp add: same_surroundings_def submissions_def setCurrentRun_def)
  note t = then_with_action [OF ra, of E cap s]
  show "\<exists>e. fst (fetchOpenRun_then E cap (Some r) s) = Inl e"
    and "\<exists>e. fst (pollCurrentRunStatus_then E cap r s) = Inl e"
    by (simp_all add: t ex res)
  show "submissions (snd (fetchOpenRun_then E cap (Some r) s)) = submissions s"
    and "submissions (snd (pollCurrentRunStatus_then E cap r s)) = submissions s"
    by (simp_all add: t ex res sub)
  from then_throws(1) [OF ra wf, of initial_state s] obtain e1 f1 where
    f: "fetchOpenRun_then E initial_state (Some r) s = (Inl e1, f1)"
    and fs: "submissions f1 = submissions s" by blast
  from settle_throw_logged(1) [OF f] f fs
  show "\<exists>e s'. settle E GetRuns (RunsResponse (Some r)) s = Some s'
           \<and> fst (fetchOpenRun_then E initial_state (Some r) s) = Inl e
           \<and> logged s' =
               logged (snd (fetchOpenRun_then E initial_state (Some r) s)) @ [LoggerError e]
           \<and> submissions s' = submissions s"
    by (simp add: submissions_logged)
  from then_throws(2) [OF ra wf, of cap s] obtain e2 p2 where
    p: "pollCurrentRunStatus_then E cap r s = (Inl e2, p2)"
    and ps: "submissions p2 = submissions s" by blast
  from settle_throw_logged(2) [OF p, of runId] p ps
  show "\<exists>e s'. settle E (GetRun runId cap) (RunResponse r) s = Some s'
           \<and> fst (pollCurrentRunStatus_then E cap r s) = Inl e
           \<and> logged s' =
               logged (snd (pollCurrentRunStatus_then E cap r s)) @ [ConsoleError e]
           \<and> submissions s' = submissions s"
    by (simp add: submissions_logged)
qed

text \<open>A completed run, a run that requires a zoom change, and a run whose one call the
  handler cannot read.\<close>

theorem tool_actions_gated_by_requires_action_witness:
  \<open>status (sample_run ''completed'' None) \<noteq> ''requires_action''
   \<and> submissions (snd (pollCurrentRunStatus_then sample_env initial_state
                          (sample_run ''completed'' None) mount)) = []
   \<and> status (sample_run ''requires_action''
               (Some [sample_call ''call_1'' ''changeMapZoomLevel'' ''{"zoomLevel":5}'']))
       = ''requires_action''
   \<and> well_formed_call sample_env
        (sample_call ''call_1'' ''changeMapZoomLevel'' ''{"zoomLevel":5}'')
   \<and> submissions (snd (pollCurrentRunStatus_then sample_env initial_state
                          (sample_run ''requires_action''
                             (Some [sample_call ''call_1'' ''changeMapZoomLevel''
                                      ''{"zoomLevel":5}''])) mount))
       = [PostOutputs ''run_1''
            [\<lparr>tool_call_id = ''call_1'',
              output = ''Map mapZoomLevel level set successfully.''\<rparr>]]
   \<and> \<not> well_formed_call sample_env (sample_call ''call_1'' ''addLocationsToMap'' ''{}'')
   \<and> map_option (\<lambda>s'. (last (logged s'), submissions s'))
         (settle sample_env GetRuns
            (RunsResponse (Some (sample_run ''requires_action''
               (Some [sample_call ''call_1'' ''addLocationsToMap'' ''{}''])))) mount)
       = Some (LoggerError TypeError, [])
   \<and> map_option (\<lambda>s'. (last (logged s'), submissions s'))
         (settle sample_env (GetRun ''run_1'' initial_state)
            (RunResponse (sample_run ''requires_action''
               (Some [sample_call ''call_1'' ''addLocationsToMap'' ''{}'']))) mount)
       = Some (ConsoleError TypeError, [])\<close>
proof -
  let ?r1 = "sample_run ''completed'' None"
  let ?c = \<open>sample_call ''call_1'' ''changeMapZoomLevel'' ''{"zoomLevel":5}''\<close>
  let ?r2 = "sample_run ''requires_action'' (Some [?c])"
  have a1: "status ?r1 \<noteq> ''requires_action''" by (simp add: sample_run_def)
  have a2: "status ?r2 = ''requires_action''" by (simp add: sample_run_def)
  have a3: "well_formed_call sample_env ?c" by (simp add: sample_defs well_formed_call_def)
  have a4: "\<forall>a \<in> set (run_tool_calls ?r2). well_formed_call sample_env a"
    using a3 by (simp add: run_tool_calls_def sample_run_def)
  have e: "expected_outputs ?r2 =
      [\<lparr>tool_call_id = ''call_1'', output = ''Map mapZoomLevel level set successfully.''\<rparr>]"
    by (simp add: expected_outputs_def run_tool_calls_def sample_run_def sample_call_def
        handled_def handled_names_def success_response_def)
  have i: "run_id ?r2 = ''run_1''" by (simp add: sample_run_def)
  from tool_actions_gated_by_requires_action [of ?r1 sample_env initial_state mount] a1
  have "submissions (snd (pollCurrentRunStatus_then sample_env initial_state ?r1 mount))
        = submissions mount"
    by blast
  then have b1:
    "submissions (snd (pollCurrentRunStatus_then sample_env initial_state ?r1 mount)) = []"
    by (simp only: submissions_mount)
  from tool_actions_gated_by_requires_action [of ?r2 sample_env initial_state mount] a2 a4
  have "submissions (snd (pollCurrentRunStatus_then sample_env initial_state ?r2 mount))
        = submissions mount @ [PostOutputs (run_id ?r2) (expected_outputs ?r2)]"
    by blast
  then have b2: "submissions (snd (pollCurrentRunStatus_then sample_env initial_state ?r2 mount))
        = [PostOutputs ''run_1''
            [\<lparr>tool_call_id = ''call_1'',
              output = ''Map mapZoomLevel level set successfully.''\<rparr>]]"
    by (simp only: submissions_mount e i append_Nil)
  let ?c3 = "sample_call ''call_1'' ''addLocationsToMap'' ''{}''"
  let ?r3 = "sample_run ''requires_action'' (Some [?c3])"
  have a5: "status ?r3 = ''requires_action''" by (simp add: sample_run_def)
  have a6: "\<not> well_formed_call sample_env ?c3"
    by (simp add: sample_defs well_formed_call_def)
  then have a7: "\<not> (\<forall>a \<in> set (run_tool_calls ?r3). well_formed_call sample_env a)"
    by (simp add: run_tool_calls_def sample_run_def)
  have t: "fst (fetchOpenRun_then sample_env initial_state (Some ?r3) mount) = Inl TypeError"
    "fst (pollCurrentRunStatus_then sample_env initial_state ?r3 mount) = Inl TypeError"
    by (simp_all add: pollCurrentRunStatus_then_def fetchOpenRun_then_def
        executeAssistantActions_def execute_action_def addLocationsToMap_def sample_defs
        mount_defs setter_defs)
  note part =
    tool_actions_gated_by_requires_action
      [of ?r3 sample_env initial_state mount "''run_1''",
       THEN conjunct2, THEN conjunct2, rule_format, OF conjI [OF a5 a7]]
  from part obtain e1 f1 where
    "settle sample_env GetRuns (RunsResponse (Some ?r3)) mount = Some f1"
    "fst (fetchOpenRun_then sample_env initial_state (Some ?r3) mount) = Inl e1"
    "logged f1 = logged (snd (fetchOpenRun_then sample_env initial_state (Some ?r3) mount))
                 @ [LoggerError e1]"
    "submissions f1 = submissions mount"
    by blast
  with t(1) have b3: "map_option (\<lambda>s'. (last (logged s'), submissions s'))
         (settle sample_env GetRuns (RunsResponse (Some ?r3)) mount)
       = Some (LoggerError TypeError, [])"
    by (simp add: submissions_mount)
  from part obtain e2 p2 where
    "settle sample_env (GetRun ''run_1'' initial_state) (RunResponse ?r3) mount = Some p2"
    "fst (pollCurrentRunStatus_then sample_env initial_state ?r3 mount) = Inl e2"
    "logged p2 = logged (snd (pollCurrentRunStatus_then sample_env initial_state ?r3 mount))
                 @ [ConsoleError e2]"
    "submissions p2 = submissions mount"
    by blast
  with t(2) have b4: "map_option (\<lambda>s'. (last (logged s'), submissions s'))
         (settle sample_env (GetRun ''run_1'' initial_state) (RunResponse ?r3) mount)
       = Some (ConsoleError TypeError, [])"
    by (simp add: submissions_mount)
  from a1 b1 a2 a3 b2 a6 b3 b4 show ?thesis by blast
qed

text \<open>
  C1 as stated fails: the run requires action, its one call names \<open>addLocationsToMap\<close>
  with the arguments \<^verbatim>\<open>{}\<close>. The handler reads \<^verbatim>\<open>locations.length\<close> of an
  undefined \<open>markers\<close> and throws, so nothing is submitted for the run.
\<close>

theorem tool_outputs_not_submitted:
  \<open>status (sample_run ''requires_action''
             (Some [sample_call ''call_1'' ''addLocationsToMap'' ''{}'']))
     = ''requires_action''
   \<and> fst (pollCurrentRunStatus_then sample_env initial_state
            (sample_run ''requires_action''
               (Some [sample_call ''call_1'' ''addLocationsToMap'' ''{}''])) mount)
       = Inl TypeError
   \<and> submissions (snd (pollCurrentRunStatus_then sample_env initial_state
            (sample_run ''requires_action''
               (Some [sample_call ''call_1'' ''addLocationsToMap'' ''{}''])) mount))
       = []
   \<and> fst (fetchOpenRun_then sample_env initial_state
            (Some (sample_run ''requires_action''
               (Some [sample_call ''call_1'' ''addLocationsToMap'' ''{}'']))) mount)
       = Inl TypeError
   \<and> submissions (snd (fetchOpenRun_then sample_env initial_state
            (Some (sample_run ''requires_action''
               (Some [sample_call ''call_1'' ''addLocationsToMap'' ''{}'']))) mount))
       = []\<close>
  by (simp add: pollCurrentRunStatus_then_def fetchOpenRun_then_def executeAssistantActions_def
      execute_action_def addLocationsToMap_def submissions_def sample_defs mount_defs setter_defs)

subsection \<open>fetchMessages\<close>

lemma find_None_iff_ids:
  "(find (\<lambda>m. msg_id m = i) ms = None) = (i \<notin> msg_id ` set ms)"
  by (induction ms) auto

lemma distinct_map_sort_key:
  "distinct (map g (sort_key f xs)) = distinct (map g xs)"
  by (simp add: distinct_map)

lemma distinct_ids_merge:
  assumes "distinct (map msg_id old)" "distinct (map msg_id new)"
  shows "distinct (map msg_id (old @ filter (\<lambda>msg. find (\<lambda>m. msg_id m = msg_id msg) old = None) new))"
  using assms by (auto simp: find_None_iff_ids distinct_map_filter) (metis imageI)

text \<open>
  C10 (as amended). After a successful \<open>fetchMessages\<close> call whose response carries
  \<open>newMessages\<close>, the messages list is the list that the callback captured followed by
  the fetched messages whose id is not in it, sorted in ascending order of
  \<open>created_at\<close>: a fetched message whose id occurs in the captured list is not added
  again, and the ids are pairwise distinct when those of the captured list and those of
  \<open>newMessages\<close> are. A response without \<open>newMessages\<close> leaves the messages list as
  it is.
\<close>

theorem fetchMessages_sorted_distinct:
  "sorted (map created_at (messages (st (fetchMessages_then cap (Some newMessages) s))))
   \<and> set (messages (st (fetchMessages_then cap (Some newMessages) s))) =
       set (messages cap) \<union> {m \<in> set newMessages. msg_id m \<notin> msg_id ` set (messages cap)}
   \<and> length (messages (st (fetchMessages_then cap (Some newMessages) s))) =
       length (messages cap)
       + length (filter (\<lambda>m. msg_id m \<notin> msg_id ` set (messages cap)) newMessages)
   \<and> (distinct (map msg_id (messages cap)) \<and> distinct (map msg_id newMessages) \<longrightarrow>
        distinct (map msg_id (messages (st (fetchMessages_then cap (Some newMessages) s)))))
   \<and> messages (st (fetchMessages_then cap None s)) = messages (st s)"
proof (intro conjI impI)
  let ?missing = "filter (\<lambda>msg. find (\<lambda>m. msg_id m = msg_id msg) (messages cap) = None) newMessages"
  have m: "messages (st (fetchMessages_then cap (Some newMessages) s)) =
             sort_key created_at (messages cap @ ?missing)"
    by (simp add: fetchMessages_then_def setter_defs)
  show "sorted (map created_at (messages (st (fetchMessages_then cap (Some newMessages) s))))"
    by (simp add: m del: map_append)
  show "set (messages (st (fetchMessages_then cap (Some newMessages) s))) =
       set (messages cap) \<union> {m \<in> set newMessages. msg_id m \<notin> msg_id ` set (messages cap)}"
    by (auto simp: m find_None_iff_ids)
  show "length (messages (st (fetchMessages_then cap (Some newMessages) s))) =
       length (messages cap)
       + length (filter (\<lambda>m. msg_id m \<notin> msg_id ` set (messages cap)) newMessages)"
    by (simp add: m find_None_iff_ids)
  show "messages (st (fetchMessages_then cap None s)) = messages (st s)"
    by (simp add: fetchMessages_then_def setter_defs)
  assume "distinct (map msg_id (messages cap)) \<and> distinct (map msg_id newMessages)"
  then have "distinct (map msg_id (messages cap @ ?missing))"
    using distinct_ids_merge by blast
  then show "distinct (map msg_id (messages (st (fetchMessages_then cap (Some newMessages) s))))"
    by (simp only: m distinct_map_sort_key)
qed

text \<open>
  In the component the callback is the one of the first render, whose messages list is
  empty: the fetched messages, sorted, replace the list.
\<close>

lemma fetchMessages_replaces_messages:
  assumes "settle E (GetMessages hydrating) (MessagesResponse (Some newMessages)) s = Some s'"
  shows "messages (st s') = sort_key created_at newMessages"
  using assms
  by (auto simp: fetchMessages_then_def fetchOpenRun_def initial_state_def setter_defs Let_def
      split: if_splits)

text \<open>Three fetched messages, one of them already in the captured list.\<close>

theorem fetchMessages_sorted_distinct_witness:
  "distinct (map msg_id (messages (initial_state\<lparr>messages := [sample_message ''m1'' 5]\<rparr>)))
   \<and> distinct (map msg_id [sample_message ''m3'' 9, sample_message ''m1'' 5, sample_message ''m2'' 3])
   \<and> map msg_id (messages (st (fetchMessages_then (initial_state\<lparr>messages := [sample_message ''m1'' 5]\<rparr>)
        (Some [sample_message ''m3'' 9, sample_message ''m1'' 5, sample_message ''m2'' 3]) mount)))
       = [''m2'', ''m1'', ''m3'']
   \<and> distinct (map msg_id (messages (st (fetchMessages_then (initial_state\<lparr>messages := [sample_message ''m1'' 5]\<rparr>)
        (Some [sample_message ''m3'' 9, sample_message ''m1'' 5, sample_message ''m2'' 3]) mount))))"
proof -
  let ?cap = "initial_state\<lparr>messages := [sample_message ''m1'' 5]\<rparr>"
  let ?new = "[sample_message ''m3'' 9, sample_message ''m1'' 5, sample_message ''m2'' 3]"
  have d1: "distinct (map msg_id (messages ?cap))" by (simp add: sample_message_def)
  have d2: "distinct (map msg_id ?new)" by (simp add: sample_message_def)
  have v: "map msg_id (messages (st (fetchMessages_then ?cap (Some ?new) mount)))
       = [''m2'', ''m1'', ''m3'']"
    by (simp add: fetchMessages_then_def setter_defs sample_message_def)
  from fetchMessages_sorted_distinct [of ?cap ?new mount] d1 d2
  have "distinct (map msg_id (messages (st (fetchMessages_then ?cap (Some ?new) mount))))"
    by blast
  with d1 d2 v show ?thesis by blast
qed

text \<open>
  C10 as stated fails: the reply to a prompt is appended to the list, here with an earlier
  \<open>created_at\<close> than the message before it; the run completes, \<open>fetchMessages\<close> is
  called, and its response carries no \<open>newMessages\<close>. The call succeeds and the list
  is not sorted.
\<close>

theorem fetchMessages_leaves_unsorted:
  "map_option (\<lambda>s. map created_at (messages (st s)))
     (run_events sample_env
        [Response 0 (MessagesResponse (Some [sample_message ''m1'' 5])),
         Response 1 (RunsResponse None),
         PressEnter,
         Response 2 (PostMessageResponse (sample_message ''m2'' 3) (sample_run ''queued'' None)),
         TimerFires 0,
         Response 3 (RunResponse (sample_run ''completed'' None)),
         Response 4 (MessagesResponse None)]
        mount)
   = Some [5, 3]"
  by (simp add: mount_def event_defs setter_defs sample_defs)

subsection \<open>One event\<close>

lemma polls_in_flight_axios:
  "polls_in_flight (axios req s) = polls_in_flight s + (if is_poll req then 1 else 0)"
  by (simp add: polls_in_flight_def axios_def)

lemma polls_in_flight_timers_update:
  "polls_in_flight (s\<lparr>timers := ts\<rparr>) = polls_in_flight s"
  by (simp add: polls_in_flight_def)

lemma render_run_changed: "\<not> run_changed (render s)"
  by (simp add: render_def useEffect_pollRunStatus_def pollRunStatus_def Let_def)

lemma render_unchanged: "\<not> run_changed s \<Longrightarrow> render s = s"
  by (simp add: render_def)

lemma render_changed:
  assumes "run_changed s"
  shows "st (render s) = st s" and "requests (render s) = requests s"
    and "logged (render s) = logged s"
    and "timers (render s) =
           timers s @ (if isRunActive (currentRun (st s))
                       then [(next_timer s, \<lparr>delay = 2000, captured = st s\<rparr>)] else [])"
  using assms
  by (auto simp add: render_def useEffect_pollRunStatus_def pollRunStatus_def Let_def
      isRunActive_def)

text \<open>What the \<^verbatim>\<open>.then\<close> callbacks that receive a run do to the surroundings.\<close>

lemma fetchOpenRun_then_effect:
  assumes "fetchOpenRun_then E cap latestRun s = (res, s')"
  shows "timers s' = timers s" and "next_timer s' = next_timer s"
    and "polls_in_flight s' = polls_in_flight s"
    and "run_changed s' = (run_changed s \<or> isRunActive latestRun)"
    and "isRunActive latestRun \<Longrightarrow> currentRun (st s') = latestRun"
    and "\<not> isRunActive latestRun \<Longrightarrow> s' = s"
proof -
  show "\<not> isRunActive latestRun \<Longrightarrow> s' = s"
    using assms by (auto simp: fetchOpenRun_then_def isRunActive_def split: option.splits)
  have "timers s' = timers s \<and> next_timer s' = next_timer s
      \<and> polls_in_flight s' = polls_in_flight s
      \<and> run_changed s' = (run_changed s \<or> isRunActive latestRun)
      \<and> (isRunActive latestRun \<longrightarrow> currentRun (st s') = latestRun)"
  proof (cases "isRunActive latestRun")
    case False
    with assms have "s' = s"
      by (auto simp: fetchOpenRun_then_def isRunActive_def split: option.splits)
    with False show ?thesis by simp
  next
    case True
    then obtain r where r: "latestRun = Some r" by (cases latestRun) (auto simp: isRunActive_def)
    let ?s1 = "setCurrentRun (Some r) s"
    show ?thesis
    proof (cases "status r = ''requires_action''")
      case False
      with assms True r have "s' = ?s1" by (simp add: fetchOpenRun_then_def Let_def)
      with True r show ?thesis by (simp add: setCurrentRun_def polls_in_flight_def)
    next
      case ra: True
      obtain res2 s2 where ex: "executeAssistantActions E cap r ?s1 = (res2, s2)"
        by (cases "executeAssistantActions E cap r ?s1")
      from executeAssistantActions_surroundings [OF ex]
      have f: "same_surroundings ?s1 s2" .
      from assms True r ra ex
      have "s' = s2 \<or> (\<exists>outputs. s' = submitFunctionOutputs outputs (run_id r) s2)"
        by (auto simp: fetchOpenRun_then_def Let_def split: sum.splits)
      with f True r show ?thesis
        by (auto simp: same_surroundings_def setCurrentRun_def polls_in_flight_def
            submitFunctionOutputs_def Logger_debug_def axios_def)
    qed
  qed
  then show "timers s' = timers s" and "next_timer s' = next_timer s"
    and "polls_in_flight s' = polls_in_flight s"
    and "run_changed s' = (run_changed s \<or> isRunActive latestRun)"
    and "isRunActive latestRun \<Longrightarrow> currentRun (st s') = latestRun"
    by simp_all
qed

lemma pollCurrentRunStatus_then_effect:
  assumes "pollCurrentRunStatus_then E cap r s = (res, s')"
  shows "timers s' = timers s" and "next_timer s' = next_timer s"
    and "polls_in_flight s' = polls_in_flight s"
    and "run_changed s'" and "currentRun (st s') = Some r"
proof -
  let ?s1 = "setCurrentRun (Some r) s"
  have "timers s' = timers s \<and> next_timer s' = next_timer s
      \<and> polls_in_flight s' = polls_in_flight s \<and> run_changed s' \<and> currentRun (st s') = Some r"
  proof (cases "isRunActive (Some r) \<and> status r = ''requires_action''")
    case False
    with assms have "s' = ?s1 \<or> s' = fetchMessages False ?s1"
      by (auto simp: pollCurrentRunStatus_then_def Let_def split: if_splits)
    then show ?thesis
      by (auto simp: setCurrentRun_def polls_in_flight_def fetchMessages_def
          Logger_debug_def axios_def)
  next
    case True
    obtain res2 s2 where ex: "executeAssistantActions E cap r ?s1 = (res2, s2)"
      by (cases "executeAssistantActions E cap r ?s1")
    from executeAssistantActions_surroundings [OF ex]
    have f: "same_surroundings ?s1 s2" .
    from assms True ex
    have "s' = s2 \<or> (\<exists>outputs. s' = submitFunctionOutputs outputs (run_id r) s2)"
      by (auto simp: pollCurrentRunStatus_then_def Let_def split: sum.splits)
    with f show ?thesis
      by (auto simp: same_surroundings_def setCurrentRun_def polls_in_flight_def
          submitFunctionOutputs_def Logger_debug_def axios_def)
  qed
  then show "timers s' = timers s" and "next_timer s' = next_timer s"
    and "polls_in_flight s' = polls_in_flight s"
    and "run_changed s'" and "currentRun (st s') = Some r"
    by simp_all
qed

lemma pollCurrentRunStatus_effect:
  "timers (pollCurrentRunStatus cap s) = timers s"
  "next_timer (pollCurrentRunStatus cap s) = next_timer s"
  "run_changed (pollCurrentRunStatus cap s) = run_changed s"
  "st (pollCurrentRunStatus cap s) = st s"
  "polls_in_flight (pollCurrentRunStatus cap s) =
     polls_in_flight s + (if currentRun cap = None then 0 else 1)"
  by (auto simp: pollCurrentRunStatus_def setter_defs polls_in_flight_def split: option.splits)

text \<open>A settled request never touches the timeouts and never sends a poll; when it sets
  the run, it sets the run that its response delivered.\<close>

lemma settle_effect:
  assumes "settle E req resp s = Some s'" and "\<not> run_changed s"
  shows "timers s' = timers s \<and> next_timer s' = next_timer s
       \<and> polls_in_flight s' = polls_in_flight s
       \<and> (run_changed s' \<longrightarrow> currentRun (st s') = run_of resp \<and> run_of resp \<noteq> None)"
proof (cases req)
  case (GetMessages hydrating)
  with assms show ?thesis
    by (cases resp)
      (auto simp: fetchMessages_then_def fetchOpenRun_def setter_defs polls_in_flight_def
        Let_def split: option.splits if_splits)
next
  case GetRuns
  show ?thesis
  proof (cases resp)
    case NetworkFailure
    with GetRuns assms show ?thesis by (auto simp: setter_defs polls_in_flight_def)
  next
    case (RunsResponse latestRun)
    obtain res s1 where t: "fetchOpenRun_then E initial_state latestRun s = (res, s1)"
      by (cases "fetchOpenRun_then E initial_state latestRun s")
    note eff = fetchOpenRun_then_effect [OF t]
    from GetRuns RunsResponse assms t
    have "s' = setLoading False s1 \<or> (\<exists>e. s' = setLoading False (Logger_error e s1))"
      by (auto split: sum.splits)
    with eff assms(2) RunsResponse show ?thesis
      by (cases "isRunActive latestRun")
        (auto simp: setLoading_def Logger_error_def polls_in_flight_def isRunActive_def
          split: option.splits)
  qed (use GetRuns assms in auto)
next
  case (GetRun runId cap)
  show ?thesis
  proof (cases resp)
    case NetworkFailure
    with GetRun assms show ?thesis by (auto simp: setter_defs polls_in_flight_def)
  next
    case (RunResponse r)
    obtain res s1 where t: "pollCurrentRunStatus_then E cap r s = (res, s1)"
      by (cases "pollCurrentRunStatus_then E cap r s")
    note eff = pollCurrentRunStatus_then_effect [OF t]
    from GetRun RunResponse assms t
    have "s' = s1 \<or> (\<exists>e. s' = console_error e s1)"
      by (auto split: sum.splits)
    with eff RunResponse GetRun show ?thesis
      by (auto simp: console_error_def polls_in_flight_def)
  qed (use GetRun assms in auto)
next
  case (PostMessage messageContent msgs)
  with assms show ?thesis
    by (cases resp)
      (auto simp: handlePromptSubmission_then_def setter_defs polls_in_flight_def)
next
  case (PostOutputs runId outputs)
  with assms show ?thesis
    by (cases resp)
      (auto simp: submitFunctionOutputs_then_def setter_defs polls_in_flight_def)
qed

lemma settle_poll_response:
  "settle E req (RunResponse r) s = Some s' \<Longrightarrow> is_poll req"
  by (cases req) auto

lemma filter_key_shorter:
  "map_of xs k = Some v \<Longrightarrow> length (filter (\<lambda>(i, x). i \<noteq> k) xs) < length xs"
proof (induction xs)
  case Nil
  then show ?case by simp
next
  case (Cons a xs)
  show ?case
  proof (cases "fst a = k")
    case True
    have "length (filter (\<lambda>(i, x). i \<noteq> k) xs) \<le> length xs" by simp
    with True show ?thesis by (simp add: case_prod_beta le_imp_less_Suc)
  next
    case False
    with Cons show ?thesis by (simp add: case_prod_beta)
  qed
qed

lemma polls_filter_le:
  "length (filter is_poll (map snd (filter P xs))) \<le> length (filter is_poll (map snd xs))"
  by (induction xs) auto

lemma polls_filter_less:
  "map_of xs k = Some v \<Longrightarrow> is_poll v \<Longrightarrow>
   length (filter is_poll (map snd (filter (\<lambda>(i, x). i \<noteq> k) xs)))
     < length (filter is_poll (map snd xs))"
proof (induction xs)
  case Nil
  then show ?case by simp
next
  case (Cons a xs)
  show ?case
  proof (cases "fst a = k")
    case True
    with Cons.prems have "is_poll (snd a)" by (cases a) simp
    with True polls_filter_le [of "\<lambda>(i, x). i \<noteq> k" xs] show ?thesis
      by (simp add: case_prod_beta le_imp_less_Suc)
  next
    case False
    with Cons show ?thesis by (simp add: case_prod_beta)
  qed
qed

lemma dispatch_effect:
  assumes "dispatch E e s = Some s'" and "\<not> run_changed s"
  shows "timers s' = remaining_timers e s \<and> next_timer s' = next_timer s
       \<and> (run_changed s' \<longrightarrow>
            (\<exists>requestId resp. e = Response requestId resp \<and> currentRun (st s') = run_of resp))"
proof (cases e)
  case (TimerFires timeoutId)
  with assms show ?thesis
    by (auto simp: dispatch_def remaining_timers_def pollCurrentRunStatus_effect
        split: option.splits)
next
  case (Response requestId resp)
  with assms obtain req where
    s: "settle E req resp (s\<lparr>requests := filter (\<lambda>(i, q). i \<noteq> requestId) (requests s)\<rparr>) = Some s'"
    by (auto simp: dispatch_def split: option.splits)
  from settle_effect [OF s] assms(2) Response show ?thesis
    by (simp add: remaining_timers_def)
next
  case (ChangeInput v)
  with assms show ?thesis
    by (auto simp: dispatch_def remaining_timers_def setter_defs split: if_splits)
next
  case PressEnter
  with assms show ?thesis
    by (auto simp: dispatch_def remaining_timers_def handlePromptSubmission_def setter_defs
        Let_def split: if_splits)
qed

lemma step_run_changed: "step E e s = Some s' \<Longrightarrow> \<not> run_changed s'"
  by (auto simp: step_def render_run_changed)

lemma step_timers:
  assumes "step E e s = Some s'" and "\<not> run_changed s"
  shows "timers s' = remaining_timers e s
         \<or> (timers s' = remaining_timers e s @ [(next_timer s, \<lparr>delay = 2000, captured = st s'\<rparr>)]
            \<and> delivers_active_run e \<and> isRunActive (currentRun (st s')))"
proof -
  from assms(1) obtain d where d: "dispatch E e s = Some d" and s': "s' = render d"
    by (auto simp: step_def)
  note eff = dispatch_effect [OF d assms(2)]
  show ?thesis
  proof (cases "run_changed d")
    case False
    with eff s' show ?thesis by (simp add: render_unchanged)
  next
    case True
    with eff obtain requestId resp where e: "e = Response requestId resp"
      and r: "currentRun (st d) = run_of resp" by blast
    from render_changed [OF True] eff s' e r show ?thesis by auto
  qed
qed

lemma step_polls:
  assumes "step E e s = Some s'" and "\<not> run_changed s"
  shows "polls_in_flight s' + length (remaining_timers e s)
           + (if is_poll_response e then 1 else 0)
         \<le> polls_in_flight s + length (timers s)"
proof -
  from assms(1) obtain d where d: "dispatch E e s = Some d" and s': "s' = render d"
    by (auto simp: step_def)
  have p: "polls_in_flight s' = polls_in_flight d"
    using s' render_changed(2) [of d] render_unchanged [of d]
    by (cases "run_changed d") (simp_all add: polls_in_flight_def)
  show ?thesis
  proof (cases e)
    case (TimerFires timeoutId)
    with d obtain t where t: "map_of (timers s) timeoutId = Some t"
      and dd: "d = pollCurrentRunStatus (captured t)
                     (s\<lparr>timers := filter (\<lambda>(i, t). i \<noteq> timeoutId) (timers s)\<rparr>)"
      by (auto simp: dispatch_def split: option.splits)
    from filter_key_shorter [OF t] p dd TimerFires show ?thesis
      by (simp add: pollCurrentRunStatus_effect remaining_timers_def
          polls_in_flight_timers_update)
  next
    case (Response requestId resp)
    let ?s0 = "s\<lparr>requests := filter (\<lambda>(i, q). i \<noteq> requestId) (requests s)\<rparr>"
    from Response d obtain req where req: "map_of (requests s) requestId = Some req"
      and s: "settle E req resp ?s0 = Some d"
      by (auto simp: dispatch_def split: option.splits)
    from settle_effect [OF s] assms(2) have q: "polls_in_flight d = polls_in_flight ?s0"
      by simp
    show ?thesis
    proof (cases "is_poll_response e")
      case True
      with Response obtain r where "resp = RunResponse r" by (cases resp) auto
      with s have "is_poll req" by (auto dest: settle_poll_response)
      from polls_filter_less [OF req this] p q Response True show ?thesis
        by (simp add: polls_in_flight_def remaining_timers_def)
    next
      case False
      with polls_filter_le [of "\<lambda>(i, q). i \<noteq> requestId" "requests s"] p q Response
      show ?thesis by (simp add: polls_in_flight_def remaining_timers_def)
    qed
  next
    case (ChangeInput v)
    with d p show ?thesis
      by (auto simp: dispatch_def remaining_timers_def setter_defs polls_in_flight_def
          split: if_splits)
  next
    case PressEnter
    with d p show ?thesis
      by (auto simp: dispatch_def remaining_timers_def handlePromptSubmission_def setter_defs
          polls_in_flight_def Let_def split: if_splits)
  qed
qed

lemma step_outstanding:
  assumes "step E e s = Some s'" and "\<not> run_changed s"
  shows "outstanding s' \<le> outstanding s
           + (if delivers_active_run e \<and> \<not> is_poll_response e then 1 else 0)"
  using step_timers [OF assms] step_polls [OF assms]
  by (auto simp: outstanding_def split: if_splits)

lemma run_changed_mount: "\<not> run_changed mount"
  by (simp add: mount_def event_defs setter_defs)

lemma polling_state_fields:
  "\<not> run_changed polling_state"
  "timers polling_state = []"
  "\<exists>cap. requests polling_state = [(2, GetRun ''run_1'' cap)]"
  "next_request polling_state = 3"
  by (simp_all add: polling_state_def mount_def event_defs setter_defs sample_defs)

subsection \<open>When polling stops\<close>

lemma set_remaining_timers: "set (remaining_timers e s) \<subseteq> set (timers s)"
  by (cases e) (auto simp: remaining_timers_def)

lemma step_timers_subset:
  assumes "step E e s = Some s'" and "\<not> run_changed s" and "\<not> delivers_active_run e"
  shows "set (timers s') \<subseteq> set (timers s)"
  using step_timers [OF assms(1,2)] assms(3) set_remaining_timers [of e s] by auto

lemma run_events_timers_subset:
  assumes "run_events E es s = Some s'" and "\<not> run_changed s"
    and "\<forall>e \<in> set es. \<not> delivers_active_run e"
  shows "set (timers s') \<subseteq> set (timers s)"
  using assms
proof (induction es arbitrary: s)
  case Nil
  then show ?case by simp
next
  case (Cons e es)
  from Cons.prems(1) obtain s1 where s1: "step E e s = Some s1"
    and rest: "run_events E es s1 = Some s'"
    by (auto split: option.splits)
  from Cons.prems(3) have ne: "\<not> delivers_active_run e"
    and nes: "\<forall>e \<in> set es. \<not> delivers_active_run e" by simp_all
  from step_timers_subset [OF s1 Cons.prems(2) ne]
    Cons.IH [OF rest step_run_changed [OF s1] nes]
  show ?case by blast
qed

lemma poll_response_inactive:
  assumes "map_of (requests s) requestId = Some (GetRun runId cap)"
    and "\<not> run_changed s" and "\<not> isRunActive (Some r)"
  shows "step E (Response requestId (RunResponse r)) s =
           Some (fetchMessages False
                   (s\<lparr>requests := filter (\<lambda>(i, q). i \<noteq> requestId) (requests s),
                      st := (st s)\<lparr>currentRun := Some r\<rparr>\<rparr>))"
  using assms
  by (simp add: step_def dispatch_def pollCurrentRunStatus_then_def render_def
      useEffect_pollRunStatus_def pollRunStatus_def fetchMessages_def setter_defs)

text \<open>
  C4 (as amended). A run is active when it is there and its status is one of the four;
  \<open>pollRunStatus\<close> sets a timeout exactly when \<open>currentRun\<close> is active, and no event
  leaves a new timeout behind unless \<open>currentRun\<close> is active after it. When a poll
  response carries a run that is not active, no timeout is set, \<open>currentRun\<close> is that
  run and the messages are fetched; and from then on no timeout is set, whatever happens,
  until a response delivers an active run.
\<close>

theorem polling_stops_when_inactive:
  "isRunActive cr =
     (\<exists>x. cr = Some x
        \<and> status x \<in> {''queued'', ''in_progress'', ''cancelling'', ''requires_action''})
   \<and> timers (snd (pollRunStatus s)) =
       timers s @ (if isRunActive (currentRun (st s))
                   then [(next_timer s, \<lparr>delay = 2000, captured = st s\<rparr>)] else [])
   \<and> (\<not> run_changed s \<and> step E e s = Some s1 \<longrightarrow>
        set (timers s1) \<subseteq> set (timers s) \<or> isRunActive (currentRun (st s1)))
   \<and> (\<not> run_changed s \<and> map_of (requests s) requestId = Some (GetRun runId cap)
        \<and> \<not> isRunActive (Some r) \<longrightarrow>
        (\<exists>s1. step E (Response requestId (RunResponse r)) s = Some s1
           \<and> timers s1 = timers s
           \<and> requests s1 = filter (\<lambda>(i, q). i \<noteq> requestId) (requests s)
                             @ [(next_request s, GetMessages False)]
           \<and> currentRun (st s1) = Some r
           \<and> (\<forall>es s2. run_events E es s1 = Some s2
                 \<and> (\<forall>e \<in> set es. \<not> delivers_active_run e) \<longrightarrow>
                 set (timers s2) \<subseteq> set (timers s))))"
proof (intro conjI impI)
  show "isRunActive cr =
     (\<exists>x. cr = Some x
        \<and> status x \<in> {''queued'', ''in_progress'', ''cancelling'', ''requires_action''})"
    by (cases cr) (auto simp: isRunActive_def)
  show "timers (snd (pollRunStatus s)) =
       timers s @ (if isRunActive (currentRun (st s))
                   then [(next_timer s, \<lparr>delay = 2000, captured = st s\<rparr>)] else [])"
    by (auto simp: pollRunStatus_def Let_def isRunActive_def)
next
  assume "\<not> run_changed s \<and> step E e s = Some s1"
  then have a: "step E e s = Some s1" and b: "\<not> run_changed s" by simp_all
  from step_timers [OF a b] set_remaining_timers [of e s]
  show "set (timers s1) \<subseteq> set (timers s) \<or> isRunActive (currentRun (st s1))"
    by auto
next
  assume "\<not> run_changed s \<and> map_of (requests s) requestId = Some (GetRun runId cap)
        \<and> \<not> isRunActive (Some r)"
  then have b: "\<not> run_changed s"
    and q: "map_of (requests s) requestId = Some (GetRun runId cap)"
    and i: "\<not> isRunActive (Some r)" by simp_all
  let ?s1 = "fetchMessages False
                   (s\<lparr>requests := filter (\<lambda>(i, q). i \<noteq> requestId) (requests s),
                      st := (st s)\<lparr>currentRun := Some r\<rparr>\<rparr>)"
  note st = poll_response_inactive [OF q b i, of E]
  have t: "timers ?s1 = timers s" by (simp add: fetchMessages_def setter_defs)
  have "\<forall>es s2. run_events E es ?s1 = Some s2
                 \<and> (\<forall>e \<in> set es. \<not> delivers_active_run e) \<longrightarrow>
                 set (timers s2) \<subseteq> set (timers s)"
    using run_events_timers_subset [OF _ step_run_changed [OF st]] t by metis
  with st t show "\<exists>s1. step E (Response requestId (RunResponse r)) s = Some s1
           \<and> timers s1 = timers s
           \<and> requests s1 = filter (\<lambda>(i, q). i \<noteq> requestId) (requests s)
                             @ [(next_request s, GetMessages False)]
           \<and> currentRun (st s1) = Some r
           \<and> (\<forall>es s2. run_events E es s1 = Some s2
                 \<and> (\<forall>e \<in> set es. \<not> delivers_active_run e) \<longrightarrow>
                 set (timers s2) \<subseteq> set (timers s))"
    by (simp add: fetchMessages_def setter_defs)
qed

text \<open>A poll in flight is answered with a completed run; then the messages arrive and the
  user sends a prompt.\<close>

theorem polling_stops_when_inactive_witness:
  "\<not> run_changed polling_state
   \<and> map_option is_poll (map_of (requests polling_state) 2) = Some True
   \<and> \<not> isRunActive (Some (sample_run ''completed'' None))
   \<and> \<not> delivers_active_run (Response 3 (MessagesResponse None))
   \<and> \<not> delivers_active_run PressEnter
   \<and> (case run_events sample_env
             [Response 2 (RunResponse (sample_run ''completed'' None)),
              Response 3 (MessagesResponse None), PressEnter]
             polling_state of
         None \<Rightarrow> False
       | Some s2 \<Rightarrow> set (timers s2) \<subseteq> set (timers polling_state))"
proof -
  let ?r = "sample_run ''completed'' None"
  let ?es = "[Response 3 (MessagesResponse None), PressEnter]"
  from polling_state_fields(3) obtain cap where
    rq: "requests polling_state = [(2, GetRun ''run_1'' cap)]" by blast
  then have q: "map_of (requests polling_state) 2 = Some (GetRun ''run_1'' cap)" by simp
  have b: "\<not> run_changed polling_state" by (rule polling_state_fields(1))
  have i: "\<not> isRunActive (Some ?r)" by (simp add: isRunActive_def sample_run_def)
  have d: "\<forall>e \<in> set ?es. \<not> delivers_active_run e" by (simp add: isRunActive_def)
  note part =
    polling_stops_when_inactive
      [of None polling_state sample_env PressEnter polling_state 2 "''run_1''" cap ?r,
       THEN conjunct2, THEN conjunct2, THEN conjunct2, rule_format]
  from b q i have "\<not> run_changed polling_state
      \<and> map_of (requests polling_state) 2 = Some (GetRun ''run_1'' cap)
      \<and> \<not> isRunActive (Some ?r)" by (intro conjI)
  from part [OF this]
  obtain s1 where s1: "step sample_env (Response 2 (RunResponse ?r)) polling_state = Some s1"
    and ever: "\<And>es s2. run_events sample_env es s1 = Some s2
                 \<and> (\<forall>e \<in> set es. \<not> delivers_active_run e) \<Longrightarrow>
                 set (timers s2) \<subseteq> set (timers polling_state)"
    by (elim exE conjE) (rule that, assumption, blast)
  have "\<exists>s2. run_events sample_env (Response 2 (RunResponse ?r) # ?es) polling_state = Some s2"
    by (simp add: polling_state_def mount_def event_defs setter_defs sample_defs)
  then obtain s2 where
    s2: "run_events sample_env (Response 2 (RunResponse ?r) # ?es) polling_state = Some s2"
    by blast
  with s1 have "run_events sample_env ?es s1 = Some s2" by simp
  with ever [of ?es s2] d have "set (timers s2) \<subseteq> set (timers polling_state)" by blast
  with s2 b q i show ?thesis by (simp add: isRunActive_def)
qed

text \<open>
  C4 as stated fails: \<open>fetchOpenRun\<close> finds a run that requires action and submits its
  outputs; the timeout fires and the poll is answered with the completed run: no timeout
  is pending, the messages are fetched. Then the response to the submission arrives, with
  the run still in progress; it becomes \<open>currentRun\<close>, and the timeout 1 is set.
\<close>

theorem poll_scheduled_after_inactive_response:
  "map_option
     (\<lambda>s. (map_option status (currentRun (st s)), map fst (timers s), map fst (requests s)))
     (run_events sample_env
        [Response 0 (MessagesResponse (Some [])),
         Response 1 (RunsResponse (Some zoom_run)),
         TimerFires 0,
         Response 3 (RunResponse (sample_run ''completed'' None))]
        mount)
     = Some (Some ''completed'', [], [2, 4])
   \<and> map_option
     (\<lambda>s. (map_option status (currentRun (st s)), map fst (timers s), map fst (requests s)))
     (run_events sample_env
        [Response 0 (MessagesResponse (Some [])),
         Response 1 (RunsResponse (Some zoom_run)),
         TimerFires 0,
         Response 3 (RunResponse (sample_run ''completed'' None)),
         Response 2 (PostOutputsResponse (sample_run ''in_progress'' None))]
        mount)
     = Some (Some ''in_progress'', [1], [4])"
  by (simp add: mount_def event_defs setter_defs sample_defs)

subsection \<open>Outstanding polls\<close>

text \<open>
  C5 (as amended). Every timeout that fires sends at most one poll, and every poll
  response sets at most one timeout: over any sequence of events the number of
  outstanding polls (pending timeouts and polls in flight) grows by at most one for each
  response of \<open>fetchOpenRun\<close>, \<open>submitFunctionOutputs\<close> or \<open>handlePromptSubmission\<close>
  that delivers an active run, and not at all otherwise.
\<close>

theorem outstanding_polls_bound:
  assumes "\<not> run_changed s" and "run_events E es s = Some s'"
  shows "outstanding s' \<le> outstanding s
           + length (filter (\<lambda>e. delivers_active_run e \<and> \<not> is_poll_response e) es)"
  using assms
proof (induction es arbitrary: s)
  case Nil
  then show ?case by simp
next
  case (Cons e es)
  from Cons.prems(2) obtain s1 where s1: "step E e s = Some s1"
    and rest: "run_events E es s1 = Some s'"
    by (auto split: option.splits)
  from step_outstanding [OF s1 Cons.prems(1)]
    Cons.IH [OF step_run_changed [OF s1] rest]
  show ?case by (auto split: if_splits)
qed

text \<open>A queued run that \<open>fetchOpenRun\<close> finds, polled twice.\<close>

theorem outstanding_polls_bound_witness:
  "\<not> run_changed mount
   \<and> (case run_events sample_env
             [Response 0 (MessagesResponse (Some [])),
              Response 1 (RunsResponse (Some (sample_run ''queued'' None))),
              TimerFires 0,
              Response 2 (RunResponse (sample_run ''in_progress'' None)),
              TimerFires 1]
             mount of
         None \<Rightarrow> False
       | Some s' \<Rightarrow> outstanding s' \<le> outstanding mount + 1)"
proof -
  let ?es = "[Response 0 (MessagesResponse (Some [])),
              Response 1 (RunsResponse (Some (sample_run ''queued'' None))),
              TimerFires 0,
              Response 2 (RunResponse (sample_run ''in_progress'' None)),
              TimerFires 1]"
  have "\<exists>s'. run_events sample_env ?es mount = Some s'"
    by (simp add: mount_def event_defs setter_defs sample_defs)
  then obtain s' where s': "run_events sample_env ?es mount = Some s'" by blast
  have n: "length (filter (\<lambda>e. delivers_active_run e \<and> \<not> is_poll_response e) ?es) = 1"
    by (simp add: isRunActive_def sample_run_def)
  from outstanding_polls_bound [OF run_changed_mount s'] n
  have "outstanding s' \<le> outstanding mount + 1" by simp
  with s' run_changed_mount show ?thesis by simp
qed

text \<open>
  C5 as stated fails: \<open>fetchOpenRun\<close> finds a run that requires action, sets the timeout
  0 and submits the outputs. The timeout fires and sends the poll 3. While that
  poll is in flight the submission is answered with a run in progress, which sets the
  timeout 1 (a new timeout before the poll's response has resolved); it fires and sends
  the poll 4. Two polls are in flight.
\<close>

theorem two_polls_in_flight:
  "map_option (\<lambda>s. (map fst (filter (is_poll \<circ> snd) (requests s)), polls_in_flight s))
     (run_events sample_env
        [Response 0 (MessagesResponse (Some [])),
         Response 1 (RunsResponse (Some zoom_run)),
         TimerFires 0,
         Response 2 (PostOutputsResponse (sample_run ''in_progress'' None)),
         TimerFires 1]
        mount)
   = Some ([3, 4], 2)"
  by (simp add: mount_def event_defs setter_defs sample_defs polls_in_flight_def)

subsection \<open>Network failures\<close>

text \<open>
  C6 (as amended). When the request of an API call fails, the failure is caught and logged
  (one line, by \<open>Logger.error\<close>, or by \<open>console.error\<close> for a poll), the request is not
  sent again, no timeout is set, and the state is left as it is; except that
  \<open>hydrateMessages\<close> goes on with its chain: after its failed messages request it still
  sends the request of \<open>fetchOpenRun\<close>, and after its failed runs request it still sets
  \<open>loading\<close> to false.
\<close>

theorem network_failure_logged_only:
  assumes "map_of (requests s) requestId = Some req" and "\<not> run_changed s"
  shows "\<exists>s'. step E (Response requestId NetworkFailure) s = Some s'
     \<and> logged s' = logged s @ [failure_line req]
         @ (if req = GetMessages True then [LoggerDebug ''Fetching open run''] else [])
     \<and> timers s' = timers s
     \<and> requests s' = filter (\<lambda>(i, q). i \<noteq> requestId) (requests s)
         @ (if req = GetMessages True then [(next_request s, GetRuns)] else [])
     \<and> st s' = (if req = GetRuns then (st s)\<lparr>loading := False\<rparr> else st s)"
  using assms
  by (cases req)
    (auto simp: step_def dispatch_def render_def fetchOpenRun_def setter_defs Let_def)

text \<open>The first request of the component fails.\<close>

theorem network_failure_logged_only_witness:
  "map_of (requests mount) 0 = Some (GetMessages True)
   \<and> \<not> run_changed mount
   \<and> map_option logged (step sample_env (Response 0 NetworkFailure) mount)
       = Some (logged mount @ [LoggerError NetworkError, LoggerDebug ''Fetching open run''])
   \<and> map_option st (step sample_env (Response 0 NetworkFailure) mount) = Some (st mount)"
proof -
  have q: "map_of (requests mount) 0 = Some (GetMessages True)"
    by (simp add: mount_def event_defs setter_defs)
  from network_failure_logged_only [OF q run_changed_mount, of sample_env]
  obtain s' where "step sample_env (Response 0 NetworkFailure) mount = Some s'"
    and "logged s' = logged mount @ [failure_line (GetMessages True)]
         @ (if GetMessages True = GetMessages True then [LoggerDebug ''Fetching open run''] else [])"
    and "st s' = (if GetMessages True = GetRuns then (st mount)\<lparr>loading := False\<rparr> else st mount)"
    by blast
  with q run_changed_mount show ?thesis by simp
qed

text \<open>
  C6 as stated fails for \<open>hydrateMessages\<close>: both of its requests fail, both failures
  are logged, and the state has changed, \<open>loading\<close> is false.
\<close>

theorem hydrate_failure_changes_state:
  "map_option (\<lambda>s. (loading (st s), logged s))
     (run_events sample_env [Response 0 NetworkFailure, Response 1 NetworkFailure] mount)
     = Some (False,
             [LoggerDebug ''Hydrating'', LoggerDebug ''Fetching messages'',
              LoggerError NetworkError, LoggerDebug ''Fetching open run'',
              LoggerError NetworkError])
   \<and> loading (st mount) = True"
  by (simp add: mount_def event_defs setter_defs sample_defs)

subsection \<open>The poll timer and its cleanup\<close>

text \<open>Every timeout is set with the same delay of 2000 ms, whatever happened before.\<close>

lemma poll_delay_fixed:
  assumes "run_events E es s = Some s'" and "\<not> run_changed s"
    and "\<forall>t \<in> set (timers s). delay (snd t) = 2000"
  shows "\<forall>t \<in> set (timers s'). delay (snd t) = 2000"
  using assms
proof (induction es arbitrary: s)
  case Nil
  then show ?case by simp
next
  case (Cons e es)
  from Cons.prems(1) obtain s1 where s1: "step E e s = Some s1"
    and rest: "run_events E es s1 = Some s'"
    by (auto split: option.splits)
  from step_timers [OF s1 Cons.prems(2)] set_remaining_timers [of e s] Cons.prems(3)
  have "\<forall>t \<in> set (timers s1). delay (snd t) = 2000" by fastforce
  from Cons.IH [OF rest step_run_changed [OF s1] this] show ?case .
qed

text \<open>The function that \<open>pollRunStatus\<close> returns clears the timeout that it has set.\<close>

lemma pollRunStatus_cleanup:
  assumes "pollRunStatus s = (Some c, s')"
  shows "timers (run_cleanup c s') = filter (\<lambda>(i, t). i \<noteq> next_timer s) (timers s)"
  using assms
  by (auto simp: pollRunStatus_def Let_def clearTimeout_def split: if_splits)

text \<open>
  C7. The poller is a loop of timeouts of 2000 ms each (\<open>poll_delay_fixed\<close>), and the
  only cancellation is the function that \<open>pollRunStatus\<close> returns
  (\<open>pollRunStatus_cleanup\<close>). The source says of it: clear the timeout when the
  currentRun changes, component unmounts or polling stops. The effect drops it, so no
  pending timeout is ever cleared: below, the timeout 0 was set for the run that required
  action; the response to the submission changes \<open>currentRun\<close>, and the timeout 0 is
  still pending beside the new timeout 1.
\<close>

theorem pending_timer_survives_run_change:
  "map_option
     (\<lambda>s. (map_option status (currentRun (st s)),
           map (\<lambda>(i, t). (i, delay t, map_option status (currentRun (captured t)))) (timers s)))
     (run_events sample_env
        [Response 0 (MessagesResponse (Some [])),
         Response 1 (RunsResponse (Some zoom_run)),
         Response 2 (PostOutputsResponse (sample_run ''in_progress'' None))]
        mount)
   = Some (Some ''in_progress'',
           [(0, 2000, Some ''requires_action''), (1, 2000, Some ''in_progress'')])"
  by (simp add: mount_def event_defs setter_defs sample_defs)

end
